theory Spec2Isabelle
  imports Complex_Main
begin

text \<open>
  A model of \<^verbatim>\<open>glhmm/preproc.py\<close>: the dimensionality reducers, the peak dampening, the
  preprocessing pipeline and the three design-matrix builders, each function under its
  own name. A \<^verbatim>\<open>raise\<close> of Python or NumPy is the \<open>Inl\<close> branch of a sum type; the routines
  of scikit-learn, SciPy and LAPACK are parameters of the functions that call them.
\<close>

section \<open>Floating-point values\<close>

text \<open>
  The arrays of \<^verbatim>\<open>preproc.py\<close> hold IEEE doubles. A sample is modelled as a real number or
  one of the three special values; rounding is not modelled (finite arithmetic is exact),
  and a zero is taken to be \<^verbatim>\<open>+0.0\<close>. Division, logarithm and square root return the
  special values where NumPy does: nothing raises.
\<close>

datatype npfloat = Fin real | PosInf | NegInf | NaN

fun fl_neg :: "npfloat \<Rightarrow> npfloat" where
  "fl_neg (Fin x) = Fin (- x)"
| "fl_neg PosInf = NegInf"
| "fl_neg NegInf = PosInf"
| "fl_neg NaN = NaN"

fun fl_add :: "npfloat \<Rightarrow> npfloat \<Rightarrow> npfloat" where
  "fl_add (Fin x) (Fin y) = Fin (x + y)"
| "fl_add NaN b = NaN"
| "fl_add a NaN = NaN"
| "fl_add PosInf NegInf = NaN"
| "fl_add NegInf PosInf = NaN"
| "fl_add PosInf b = PosInf"
| "fl_add a PosInf = PosInf"
| "fl_add NegInf b = NegInf"
| "fl_add a NegInf = NegInf"

definition fl_sub :: "npfloat \<Rightarrow> npfloat \<Rightarrow> npfloat" where
  "fl_sub a b = fl_add a (fl_neg b)"

text \<open>The sign of a value as \<open>-1\<close>, \<open>0\<close> or \<open>1\<close>; \<open>NaN\<close> has none (\<open>0\<close> here).\<close>

fun fl_sign :: "npfloat \<Rightarrow> real" where
  "fl_sign (Fin x) = sgn x"
| "fl_sign PosInf = 1"
| "fl_sign NegInf = - 1"
| "fl_sign NaN = 0"

fun is_nan :: "npfloat \<Rightarrow> bool" where
  "is_nan NaN = True"
| "is_nan a = False"

fun is_fin :: "npfloat \<Rightarrow> bool" where
  "is_fin (Fin x) = True"
| "is_fin a = False"

definition fl_of_sign :: "real \<Rightarrow> npfloat" where
  "fl_of_sign s = (if s = 0 then NaN else if 0 < s then PosInf else NegInf)"

fun fl_mul :: "npfloat \<Rightarrow> npfloat \<Rightarrow> npfloat" where
  "fl_mul (Fin x) (Fin y) = Fin (x * y)"
| "fl_mul NaN b = NaN"
| "fl_mul a NaN = NaN"
| "fl_mul a b = fl_of_sign (fl_sign a * fl_sign b)"

fun fl_div :: "npfloat \<Rightarrow> npfloat \<Rightarrow> npfloat" where
  "fl_div (Fin x) (Fin y) = (if y = 0 then fl_of_sign (sgn x) else Fin (x / y))"
| "fl_div NaN b = NaN"
| "fl_div a NaN = NaN"
| "fl_div (Fin x) b = Fin 0"
| "fl_div a (Fin y) = fl_of_sign (fl_sign a * (if y < 0 then - 1 else 1))"
| "fl_div a b = NaN"

fun fl_sqrt :: "npfloat \<Rightarrow> npfloat" where
  "fl_sqrt (Fin x) = (if x < 0 then NaN else Fin (sqrt x))"
| "fl_sqrt PosInf = PosInf"
| "fl_sqrt a = NaN"

fun fl_log :: "npfloat \<Rightarrow> npfloat" where
  "fl_log (Fin x) = (if x < 0 then NaN else if x = 0 then NegInf else Fin (ln x))"
| "fl_log PosInf = PosInf"
| "fl_log a = NaN"

fun fl_abs :: "npfloat \<Rightarrow> npfloat" where
  "fl_abs (Fin x) = Fin \<bar>x\<bar>"
| "fl_abs NaN = NaN"
| "fl_abs a = PosInf"

text \<open>Comparisons: every comparison with \<open>NaN\<close> is false.\<close>

fun fl_less :: "npfloat \<Rightarrow> npfloat \<Rightarrow> bool" where
  "fl_less (Fin x) (Fin y) = (x < y)"
| "fl_less NaN b = False"
| "fl_less a NaN = False"
| "fl_less a NegInf = False"
| "fl_less PosInf b = False"
| "fl_less a b = True"

definition fl_eq :: "npfloat \<Rightarrow> npfloat \<Rightarrow> bool" where
  "fl_eq a b = (if is_nan a then False else a = b)"

text \<open>\<^verbatim>\<open>np.sign\<close> of a value, as a value.\<close>

fun np_sign :: "npfloat \<Rightarrow> npfloat" where
  "np_sign (Fin x) = Fin (sgn x)"
| "np_sign PosInf = Fin 1"
| "np_sign NegInf = Fin (- 1)"
| "np_sign NaN = NaN"

definition fl_sum :: "npfloat list \<Rightarrow> npfloat" where
  "fl_sum xs = fold (\<lambda>x acc. fl_add acc x) xs (Fin 0)"

text \<open>\<^verbatim>\<open>np.mean\<close> and \<^verbatim>\<open>np.std\<close> (population standard deviation) of a flat sequence;
  on an empty one both are \<open>NaN\<close> (\<open>0/0\<close>).\<close>

definition fl_mean :: "npfloat list \<Rightarrow> npfloat" where
  "fl_mean xs = fl_div (fl_sum xs) (Fin (real (length xs)))"

definition fl_std :: "npfloat list \<Rightarrow> npfloat" where
  "fl_std xs =
     (let m = fl_mean xs
      in fl_sqrt (fl_mean (map (\<lambda>x. fl_mul (fl_abs (fl_sub x m)) (fl_abs (fl_sub x m))) xs)))"

section \<open>NumPy arrays and indexing\<close>

text \<open>
  A two-dimensional array is the list of its rows. Every array the code handles is
  rectangular; an array with no row is taken to have no column.
  The SegmentIndex (\<^verbatim>\<open>indices\<close>) is the list of its (start, end) rows.
\<close>

datatype error = ValueError | IndexError | TypeError | LinAlgError | ZeroDivisionError

type_synonym matrix = "npfloat list list"

type_synonym segments = "(int \<times> int) list"

definition ncols :: "'a list list \<Rightarrow> nat" where
  "ncols M = (case M of [] \<Rightarrow> 0 | r # rs \<Rightarrow> length r)"

definition rect :: "nat \<Rightarrow> 'a list list \<Rightarrow> bool" where
  "rect p M = list_all (\<lambda>r. length r = p) M"

definition column :: "'a list list \<Rightarrow> nat \<Rightarrow> 'a list" where
  "column M c = map (\<lambda>r. r ! c) M"

text \<open>\<^verbatim>\<open>np.arange(a, b)\<close> on integers.\<close>

definition arange :: "int \<Rightarrow> int \<Rightarrow> int list" where
  "arange a b = [a..b - 1]"

text \<open>\<^verbatim>\<open>np.zeros((r, c))\<close>: a negative dimension raises.\<close>

definition np_zeros :: "int \<Rightarrow> int \<Rightarrow> error + matrix" where
  "np_zeros r c =
     (if r < 0 then Inl ValueError else if c < 0 then Inl ValueError
      else Inr (replicate (nat r) (replicate (nat c) (Fin 0))))"

text \<open>An integer index into an axis of length \<open>n\<close>: a negative index counts from the end,
  an index outside \<open>[-n, n)\<close> raises.\<close>

definition np_index :: "nat \<Rightarrow> int \<Rightarrow> error + nat" where
  "np_index n i =
     (if 0 \<le> i \<and> i < int n then Inr (nat i)
      else if - int n \<le> i \<and> i < 0 then Inr (nat (int n + i))
      else Inl IndexError)"

fun np_indices :: "nat \<Rightarrow> int list \<Rightarrow> error + nat list" where
  "np_indices n [] = Inr []"
| "np_indices n (i # js) =
     (case np_index n i of
        Inl e \<Rightarrow> Inl e
      | Inr r \<Rightarrow> (case np_indices n js of Inl e \<Rightarrow> Inl e | Inr rs \<Rightarrow> Inr (r # rs)))"

text \<open>\<^verbatim>\<open>M[idx, :]\<close> with an integer index array: the rows named, in order.\<close>

definition take_rows :: "'a list list \<Rightarrow> int list \<Rightarrow> error + 'a list list" where
  "take_rows M idx =
     (case np_indices (length M) idx of Inl e \<Rightarrow> Inl e | Inr rs \<Rightarrow> Inr (map (\<lambda>r. M ! r) rs))"

text \<open>Broadcasting of a value along one axis to length \<open>n\<close>: the lengths agree, or the
  value has length one and is repeated.\<close>

definition bcast :: "nat \<Rightarrow> 'a list \<Rightarrow> 'a list option" where
  "bcast n xs =
     (if length xs = n then Some xs
      else if length xs = 1 then Some (replicate n (hd xs))
      else None)"

fun bcast_rows :: "nat \<Rightarrow> 'a list list \<Rightarrow> 'a list list option" where
  "bcast_rows n [] = Some []"
| "bcast_rows n (v # vs) =
     (case bcast n v of
        None \<Rightarrow> None
      | Some w \<Rightarrow> (case bcast_rows n vs of None \<Rightarrow> None | Some ws \<Rightarrow> Some (w # ws)))"

text \<open>Writing the values \<open>vals\<close> into the columns \<open>cols\<close> of one row.\<close>

definition put_row :: "nat list \<Rightarrow> 'a list \<Rightarrow> 'a list \<Rightarrow> 'a list" where
  "put_row cols vals row = fold (\<lambda>cv r. r[fst cv := snd cv]) (zip cols vals) row"

text \<open>
  \<^verbatim>\<open>M[rows, cols[:, np.newaxis]] = V.T\<close>, and \<^verbatim>\<open>M[rows, :] = V\<close> when \<open>cols\<close> are all
  the columns: entry \<open>(rows[t], cols[c])\<close> of \<open>M\<close> becomes \<open>V[t][c]\<close>. The value is
  broadcast to the shape of the index first (a mismatch raises ValueError), then the row
  indices are checked. The column indices are in range wherever the code builds them.
\<close>

definition assign_block ::
  "'a list list \<Rightarrow> int list \<Rightarrow> nat list \<Rightarrow> 'a list list \<Rightarrow> error + 'a list list" where
  "assign_block M rows cols V =
     (case bcast (length rows) V of
        None \<Rightarrow> Inl ValueError
      | Some V1 \<Rightarrow>
          (case bcast_rows (length cols) V1 of
             None \<Rightarrow> Inl ValueError
           | Some V2 \<Rightarrow>
               (case np_indices (length M) rows of
                  Inl e \<Rightarrow> Inl e
                | Inr rs \<Rightarrow>
                    Inr (fold (\<lambda>rv A. A[fst rv := put_row cols (snd rv) (A ! fst rv)])
                           (zip rs V2) M))))"

text \<open>\<^verbatim>\<open>np.mean(M, axis=0)\<close> and \<^verbatim>\<open>M -= np.mean(M, axis=0)\<close>.\<close>

definition col_means :: "matrix \<Rightarrow> npfloat list" where
  "col_means M = map (\<lambda>c. fl_mean (column M c)) [0..<ncols M]"

definition col_stds :: "matrix \<Rightarrow> npfloat list" where
  "col_stds M = map (\<lambda>c. fl_std (column M c)) [0..<ncols M]"

definition sub_rowvec :: "matrix \<Rightarrow> npfloat list \<Rightarrow> matrix" where
  "sub_rowvec M v = map (\<lambda>r. map2 fl_sub r v) M"

definition div_rowvec :: "matrix \<Rightarrow> npfloat list \<Rightarrow> matrix" where
  "div_rowvec M v = map (\<lambda>r. map2 fl_div r v) M"

definition center_cols :: "matrix \<Rightarrow> matrix" where
  "center_cols M = sub_rowvec M (col_means M)"

definition standardise_cols :: "matrix \<Rightarrow> matrix" where
  "standardise_cols M = (let C = center_cols M in div_rowvec C (col_stds C))"

section \<open>Linear algebra used by the regress-out step\<close>

definition select_cols :: "'a list list \<Rightarrow> nat list \<Rightarrow> 'a list list" where
  "select_cols M js = map (\<lambda>r. map (\<lambda>j. r ! j) js) M"

definition mat_T :: "matrix \<Rightarrow> nat \<Rightarrow> matrix" where
  "mat_T M p = map (\<lambda>c. column M c) [0..<p]"

definition dot :: "npfloat list \<Rightarrow> npfloat list \<Rightarrow> npfloat" where
  "dot u v = fl_sum (map2 fl_mul u v)"

definition matvec :: "matrix \<Rightarrow> npfloat list \<Rightarrow> npfloat list" where
  "matvec M v = map (\<lambda>r. dot r v) M"

definition matmul :: "matrix \<Rightarrow> matrix \<Rightarrow> nat \<Rightarrow> matrix" where
  "matmul A B q = map (\<lambda>r. map (\<lambda>c. dot r (column B c)) [0..<q]) A"

definition ridge_eye :: "nat \<Rightarrow> matrix" where
  "ridge_eye n = map (\<lambda>i. map (\<lambda>j. if i = j then Fin (1 / 1000) else Fin 0) [0..<n]) [0..<n]"

definition mat_add :: "matrix \<Rightarrow> matrix \<Rightarrow> matrix" where
  "mat_add A B = map2 (\<lambda>r s. map2 fl_add r s) A B"

definition set_col :: "matrix \<Rightarrow> nat \<Rightarrow> npfloat list \<Rightarrow> matrix" where
  "set_col M j v = map2 (\<lambda>r x. r[j := x]) M v"

text \<open>\<^verbatim>\<open>np.where(v == x)[0]\<close>: the positions of a sequence that compare equal to \<open>x\<close>.\<close>

definition where_eq :: "npfloat list \<Rightarrow> npfloat \<Rightarrow> nat list" where
  "where_eq v x = filter (\<lambda>i. fl_eq (v ! i) x) [0..<length v]"

definition where_true :: "bool list \<Rightarrow> nat list" where
  "where_true bs = filter (\<lambda>i. bs ! i) [0..<length bs]"

text \<open>
  One pass of the regress-out loop, for target column \<open>j\<close>: the predictors \<open>jj\<close> that the
  connectivity column forbids are regressed out of the target with ridge constant
  \<open>0.001\<close>. \<^verbatim>\<open>np.linalg.inv\<close> is a capability of the numerical library, passed as \<open>linv\<close>.
  The predictors are read from \<open>X\<close>, the target from \<open>Ysrc\<close>, and the fit is subtracted
  from column \<open>j\<close> of \<open>Ydst\<close>. The expression is evaluated from left to right:
  \<^verbatim>\<open>connectivity[:,j]\<close> raises when the connectivity has no column \<open>j\<close>, \<^verbatim>\<open>X[:,jj]\<close> raises
  when a forbidden predictor is not a column of \<open>X\<close>, then the inverse is taken, and the
  product with the target raises when \<open>X\<close> and the target differ in their number of rows.
\<close>

definition regress_column ::
  "(matrix \<Rightarrow> error + matrix) \<Rightarrow> matrix \<Rightarrow> matrix \<Rightarrow> matrix \<Rightarrow> matrix \<Rightarrow> nat \<Rightarrow> error + matrix" where
  "regress_column linv conn X Ysrc Ydst j =
     (if ncols conn \<le> j then Inl IndexError
      else
        (let jj = where_eq (column conn j) (Fin 0)
         in if length jj = 0 then Inr Ydst
            else if list_all (\<lambda>i. i < ncols X) jj then
              (let Xjj = select_cols X jj;
                   XT = mat_T Xjj (length jj)
               in case linv (mat_add (matmul XT Xjj (length jj)) (ridge_eye (length jj))) of
                    Inl e \<Rightarrow> Inl e
                  | Inr G \<Rightarrow>
                      (if length X = length Ysrc then
                         (let b = matvec G (matvec XT (column Ysrc j))
                          in Inr (set_col Ydst j (map2 fl_sub (column Ydst j) (matvec Xjj b))))
                       else Inl ValueError))
            else Inl IndexError))"

text \<open>
  The loop over the targets. The autoregressive builder updates \<open>Y\<close> in place, so the
  target is read from the matrix being written (\<open>Ysrc = None\<close>); the partial-connectivity
  builder reads the input \<open>Y\<close> and writes into its copy (\<open>Ysrc = Some Y\<close>).
\<close>

fun regress_out ::
  "(matrix \<Rightarrow> error + matrix) \<Rightarrow> matrix \<Rightarrow> matrix \<Rightarrow> matrix option \<Rightarrow> matrix \<Rightarrow> nat list \<Rightarrow> error + matrix" where
  "regress_out linv conn X Ysrc Ydst [] = Inr Ydst"
| "regress_out linv conn X Ysrc Ydst (j # js) =
     (case regress_column linv conn X (case Ysrc of None \<Rightarrow> Ydst | Some Y0 \<Rightarrow> Y0) Ydst j of
        Inl e \<Rightarrow> Inl e
      | Inr Y1 \<Rightarrow> regress_out linv conn X Ysrc Y1 js)"

text \<open>\<^verbatim>\<open>np.sum(v == 1) > 0\<close>.\<close>

definition any_one :: "npfloat list \<Rightarrow> bool" where
  "any_one v = list_ex (\<lambda>x. fl_eq x (Fin 1)) v"

section \<open>The autoregressive builder\<close>

text \<open>
  \<^verbatim>\<open>build_data_autoregressive\<close>, lines 355--410. The inner loop over the lags writes, for
  lag \<open>i\<close>, the rows \<open>ind_3\<close> of the data into the column block \<open>ind_ch\<close> of the rows
  \<open>ind_2\<close> of \<open>X\<close>.
\<close>

fun ar_lag_loop ::
  "matrix \<Rightarrow> nat \<Rightarrow> int \<Rightarrow> int \<Rightarrow> int \<Rightarrow> int list \<Rightarrow> nat list \<Rightarrow> matrix \<Rightarrow> error + matrix" where
  "ar_lag_loop data p k s e ind_2 [] X = Inr X"
| "ar_lag_loop data p k s e ind_2 (i # rest) X =
     (let ind_3 = arange (s + k - (int i + 1)) (e - (int i + 1));
          ind_ch = map (\<lambda>c. c + i * p) [0..<p]
      in case take_rows data ind_3 of
           Inl err \<Rightarrow> Inl err
         | Inr V \<Rightarrow>
             (case assign_block X ind_2 ind_ch V of
                Inl err \<Rightarrow> Inl err
              | Inr X1 \<Rightarrow> ar_lag_loop data p k s e ind_2 rest X1))"

text \<open>The loop over the segments; \<open>j\<close> is the number of the segment at the head of the
  list. \<^verbatim>\<open>ind_2[0]\<close> raises IndexError on a segment that is not longer than the order.\<close>

fun ar_segment_loop ::
  "matrix \<Rightarrow> nat \<Rightarrow> int \<Rightarrow> nat \<Rightarrow> segments \<Rightarrow> matrix \<Rightarrow> matrix \<Rightarrow> segments
     \<Rightarrow> error + (matrix \<times> matrix \<times> segments)" where
  "ar_segment_loop data p k j [] X Y inew = Inr (X, Y, inew)"
| "ar_segment_loop data p k j (se # segs) X Y inew =
     (let s = fst se; e = snd se;
          ind_1 = arange (s + k) e;
          ind_2 = map (\<lambda>t. t - int j * k) (arange s (e - k))
      in case take_rows data ind_1 of
           Inl err \<Rightarrow> Inl err
         | Inr R \<Rightarrow>
             (case assign_block Y ind_2 [0..<p] R of
                Inl err \<Rightarrow> Inl err
              | Inr Y1 \<Rightarrow>
                  (case ar_lag_loop data p k s e ind_2 [0..<nat k] X of
                     Inl err \<Rightarrow> Inl err
                   | Inr X1 \<Rightarrow>
                       (if ind_2 = [] then Inl IndexError
                        else ar_segment_loop data p k (Suc j) segs X1 Y1
                               (inew[j := (hd ind_2, last ind_2 + 1)])))))"

text \<open>Lines 362--376: allocation and the embedding loops.\<close>

definition ar_embed :: "matrix \<Rightarrow> segments \<Rightarrow> int \<Rightarrow> error + (matrix \<times> matrix \<times> segments)" where
  "ar_embed data indices k =
     (let T = int (length data); p = ncols data; N = length indices
      in case np_zeros (T - int N * k) (int p * k) of
           Inl err \<Rightarrow> Inl err
         | Inr X0 \<Rightarrow>
             (case np_zeros (T - int N * k) (int p) of
                Inl err \<Rightarrow> Inl err
              | Inr Y0 \<Rightarrow> ar_segment_loop data p k 0 indices X0 Y0 (replicate N (0, 0))))"

text \<open>
  Lines 383--408: the connectivity is repeated for every lag block, the forbidden
  predictors are regressed out of each target in place, and the unused columns are
  dropped. The assignment of line 388 broadcasts the connectivity to a \<open>p \<times> p\<close> block
  (one row, or one column, is repeated) and raises when it cannot; the loop of lines
  399--401 then indexes the connectivity as given (line 400), and raises when it has fewer than
  \<open>p\<close> rows or columns.
\<close>

definition ar_connectivity ::
  "(matrix \<Rightarrow> error + matrix) \<Rightarrow> nat \<Rightarrow> nat \<Rightarrow> matrix \<Rightarrow> matrix \<Rightarrow> matrix
     \<Rightarrow> error + (matrix \<times> matrix \<times> matrix)" where
  "ar_connectivity linv p k conn X Y =
     (case bcast p conn of
        None \<Rightarrow> Inl ValueError
      | Some conn_rows \<Rightarrow>
          (case bcast_rows p conn_rows of
             None \<Rightarrow> Inl ValueError
           | Some block \<Rightarrow>
               (let conn_new = concat (replicate k block)
                in case regress_out linv conn_new X None Y [0..<p] of
                     Inl err \<Rightarrow> Inl err
                   | Inr Y1 \<Rightarrow>
                       (if length conn < p then Inl IndexError
                        else if ncols conn < p then Inl IndexError
                        else
                          (let active_X = where_true (concat (replicate k (map (\<lambda>j. any_one (conn ! j)) [0..<p])));
                               active_Y = where_true (map (\<lambda>j. any_one (column conn j)) [0..<p])
                           in Inr (select_cols X active_X, select_cols Y1 active_Y,
                                   map (\<lambda>r. map (\<lambda>c. conn_new ! r ! c) active_Y) active_X))))))"

record ar_result =
  ar_X :: matrix
  ar_Y :: matrix
  ar_indices :: segments
  ar_connectivity_new :: "matrix option"
  ar_warnings :: "string list"

definition build_data_autoregressive ::
  "(matrix \<Rightarrow> error + matrix) \<Rightarrow> matrix \<Rightarrow> segments \<Rightarrow> int \<Rightarrow> matrix option \<Rightarrow> bool
     \<Rightarrow> error + ar_result" where
  "build_data_autoregressive linv data indices autoregressive_order connectivity center_data =
     (if autoregressive_order = 0 then
        Inr \<lparr>ar_X = [], ar_Y = data, ar_indices = indices, ar_connectivity_new = connectivity,
             ar_warnings = [''autoregressive_order is 0 so nothing to be done'']\<rparr>
      else
        (case ar_embed data indices autoregressive_order of
           Inl err \<Rightarrow> Inl err
         | Inr XYI \<Rightarrow>
             (let X = (if center_data then center_cols (fst XYI) else fst XYI);
                  Y = (if center_data then center_cols (fst (snd XYI)) else fst (snd XYI));
                  inew = snd (snd XYI)
              in case connectivity of
                   None \<Rightarrow>
                     Inr \<lparr>ar_X = X, ar_Y = Y, ar_indices = inew, ar_connectivity_new = None,
                          ar_warnings = []\<rparr>
                 | Some conn \<Rightarrow>
                     (case ar_connectivity linv (ncols data) (nat autoregressive_order) conn X Y of
                        Inl err \<Rightarrow> Inl err
                      | Inr XYC \<Rightarrow>
                          Inr \<lparr>ar_X = fst XYC, ar_Y = fst (snd XYC), ar_indices = inew,
                               ar_connectivity_new = Some (snd (snd XYC)), ar_warnings = []\<rparr>))))"

section \<open>The sign convention and the dimensionality reducers\<close>

text \<open>\<^verbatim>\<open>np.max\<close> of a sequence that is not empty: a \<open>NaN\<close> anywhere gives \<open>NaN\<close>.\<close>

definition fl_max :: "npfloat \<Rightarrow> npfloat \<Rightarrow> npfloat" where
  "fl_max a b = (if is_nan a then NaN else if is_nan b then NaN else if fl_less a b then b else a)"

definition np_max :: "npfloat list \<Rightarrow> npfloat" where
  "np_max xs = fold (\<lambda>x m. fl_max m x) (tl xs) (hd xs)"

text \<open>
  One pass of the loop of lines 61--63 (and 100--102), for component \<open>j\<close>:
  \<^verbatim>\<open>jj = np.where(np.abs(X[:,j]) == np.abs(np.max(X[:,j])))[0][0]\<close>, then
  \<^verbatim>\<open>if X[jj,j] < 0: X[:,j] *= -1\<close>. A column index out of range raises IndexError,
  \<^verbatim>\<open>np.max\<close> of an empty column raises ValueError, and \<^verbatim>\<open>[0][0]\<close> raises IndexError when no sample
  compares equal (a \<open>NaN\<close> in the column).
\<close>

definition sign_flip :: "matrix \<Rightarrow> nat \<Rightarrow> error + matrix" where
  "sign_flip X j =
     (if X = [] then Inl ValueError
      else if ncols X \<le> j then Inl IndexError
      else
        (let col = column X j;
             hits = filter (\<lambda>i. fl_eq (fl_abs (col ! i)) (fl_abs (np_max col))) [0..<length col]
         in case hits of
              [] \<Rightarrow> Inl IndexError
            | jj # hs \<Rightarrow>
                (if fl_less (X ! jj ! j) (Fin 0)
                 then Inr (map (\<lambda>r. r[j := fl_mul (r ! j) (Fin (- 1))]) X)
                 else Inr X)))"

fun sign_convention :: "nat list \<Rightarrow> matrix \<Rightarrow> error + matrix" where
  "sign_convention [] X = Inr X"
| "sign_convention (j # js) X =
     (case sign_flip X j of Inl e \<Rightarrow> Inl e | Inr X1 \<Rightarrow> sign_convention js X1)"

text \<open>
  The component-count argument \<open>d\<close>: a Python int, a Python float, or an array (the
  precomputed projection). The decompositions of scikit-learn are capabilities of the
  numerical library: fitting (which may raise) gives a model of an abstract type, and the
  model transforms data and reports its explained-variance ratios.
\<close>

datatype pynum = PyInt int | PyFloat real

fun num_val :: "pynum \<Rightarrow> real" where
  "num_val (PyInt n) = real_of_int n"
| "num_val (PyFloat x) = x"

datatype dspec = DNum pynum | DArr matrix

record 'm pca_lib =
  pca_fit :: "bool \<Rightarrow> pynum option \<Rightarrow> matrix \<Rightarrow> error + 'm"
  pca_transform :: "'m \<Rightarrow> matrix \<Rightarrow> matrix"
  pca_evr :: "'m \<Rightarrow> npfloat list"

record 'm ica_lib =
  ica_fit :: "pynum \<Rightarrow> string \<Rightarrow> matrix \<Rightarrow> error + 'm"
  ica_transform :: "'m \<Rightarrow> matrix \<Rightarrow> matrix"

text \<open>\<^verbatim>\<open>np.where(np.cumsum(v) >= d)[0][0] + 1\<close>; IndexError when the sum never reaches \<open>d\<close>.\<close>

fun first_reaching :: "npfloat \<Rightarrow> npfloat \<Rightarrow> nat \<Rightarrow> npfloat list \<Rightarrow> error + nat" where
  "first_reaching d acc n [] = Inl IndexError"
| "first_reaching d acc n (v # vs) =
     (if fl_less (fl_add acc v) d then first_reaching d (fl_add acc v) (Suc n) vs
      else if is_nan (fl_add acc v) then first_reaching d (fl_add acc v) (Suc n) vs
      else Inr (Suc n))"

text \<open>\<^verbatim>\<open>X @ W\<close>: the inner dimensions must agree.\<close>

definition np_matmul :: "matrix \<Rightarrow> matrix \<Rightarrow> error + matrix" where
  "np_matmul A B =
     (if A = [] then Inr []
      else if ncols A = length B then Inr (matmul A B (ncols B))
      else Inl ValueError)"

text \<open>
  \<^verbatim>\<open>apply_pca\<close>, lines 40--65. The caller's array is passed by reference: \<open>heap\<close> holds
  the arrays the caller owns and \<open>x\<close> is the address of \<open>X\<close>. The function returns the
  heap as it leaves it, the array it returns (a fresh one) and the fitted model.
  With an array \<open>d\<close>, line 41 (\<^verbatim>\<open>X -= np.mean(X,axis=0)\<close>) writes into the caller's array;
  \<^verbatim>\<open>X = X @ d\<close> and everything after it work on a new array. The \<open>whitening\<close> argument
  is only read after it has been set to True.
\<close>

definition apply_pca ::
  "'m pca_lib \<Rightarrow> matrix list \<Rightarrow> nat \<Rightarrow> dspec \<Rightarrow> bool \<Rightarrow> bool
     \<Rightarrow> error + (matrix list \<times> matrix \<times> 'm option)" where
  "apply_pca lib heap x d whitening exact =
     (case d of
        DArr W \<Rightarrow>
          (let Xc = center_cols (heap ! x)
           in case np_matmul Xc W of
                Inl e \<Rightarrow> Inl e
              | Inr Z \<Rightarrow> Inr (heap[x := Xc], div_rowvec Z (col_stds Z), None))
      | DNum n \<Rightarrow>
          (if 1 \<le> num_val n then
             (case pca_fit lib exact (Some n) (heap ! x) of
                Inl e \<Rightarrow> Inl e
              | Inr model \<Rightarrow>
                  (case n of
                     PyFloat f \<Rightarrow> Inl TypeError
                   | PyInt k \<Rightarrow>
                       (case sign_convention [0..<nat k] (pca_transform lib model (heap ! x)) of
                          Inl e \<Rightarrow> Inl e
                        | Inr Z \<Rightarrow> Inr (heap, Z, Some model))))
           else
             (case pca_fit lib exact None (heap ! x) of
                Inl e \<Rightarrow> Inl e
              | Inr model \<Rightarrow>
                  (case first_reaching (Fin (num_val n)) (Fin 0) 0 (pca_evr lib model) of
                     Inl e \<Rightarrow> Inl e
                   | Inr ncomp \<Rightarrow>
                       (case sign_convention [0..<ncomp]
                               (map (take ncomp) (pca_transform lib model (heap ! x))) of
                          Inl e \<Rightarrow> Inl e
                        | Inr Z \<Rightarrow> Inr (heap, Z, Some model))))))"

text \<open>
  \<^verbatim>\<open>apply_ica\<close>, lines 88--104. It never writes into its argument, so the array is passed
  by value. An array \<open>d\<close> has no truth value in \<^verbatim>\<open>d < 1\<close>.
\<close>

definition apply_ica ::
  "'m pca_lib \<Rightarrow> 'i ica_lib \<Rightarrow> matrix \<Rightarrow> dspec \<Rightarrow> string \<Rightarrow> error + (matrix \<times> 'i)" where
  "apply_ica plib ilib X d algorithm =
     (case d of
        DArr W \<Rightarrow> Inl ValueError
      | DNum n \<Rightarrow>
          (case (if num_val n < 1
                 then (case pca_fit plib True None X of
                         Inl e \<Rightarrow> Inl e
                       | Inr pm \<Rightarrow>
                           (case first_reaching (Fin (num_val n)) (Fin 0) 0 (pca_evr plib pm) of
                              Inl e \<Rightarrow> Inl e
                            | Inr c \<Rightarrow> Inr (PyInt (int c))))
                 else Inr n) of
             Inl e \<Rightarrow> Inl e
           | Inr ncomp \<Rightarrow>
               (case ica_fit ilib ncomp algorithm X of
                  Inl e \<Rightarrow> Inl e
                | Inr model \<Rightarrow>
                    (case ncomp of
                       PyFloat f \<Rightarrow> Inl TypeError
                     | PyInt k \<Rightarrow>
                         (case sign_convention [0..<nat k] (ica_transform ilib model X) of
                            Inl e \<Rightarrow> Inl e
                          | Inr Z \<Rightarrow> Inr (Z, model))))))"

section \<open>The partial-connectivity builder\<close>

text \<open>
  \<^verbatim>\<open>build_data_partial_connectivity\<close>, lines 443--475. The regression reads the inputs
  \<open>X\<close> and \<open>Y\<close> and writes into the copy \<open>Y_new\<close>. Lines 463--464 bind the pruned arrays to
  the local names \<open>X\<close> and \<open>Y\<close> (\<open>Xp\<close>, \<open>Yp\<close> below), which are not read again: the
  function returns \<open>X_new\<close> and \<open>Y_new\<close>. There is no test of the connectivity's shape:
  the regression raises as described above, and the loop of line 458 raises when the
  connectivity has fewer than \<open>p\<close> rows; rows and columns beyond \<open>p\<close> and \<open>q\<close> are
  otherwise ignored.
\<close>

definition build_data_partial_connectivity ::
  "(matrix \<Rightarrow> error + matrix) \<Rightarrow> matrix \<Rightarrow> matrix \<Rightarrow> matrix option \<Rightarrow> bool
     \<Rightarrow> error + (matrix \<times> matrix \<times> matrix option)" where
  "build_data_partial_connectivity linv X Y connectivity center_data =
     (let X_new = X; Y_new = Y
      in case connectivity of
           None \<Rightarrow>
             Inr (if center_data then center_cols X_new else X_new,
                  if center_data then center_cols Y_new else Y_new, None)
         | Some conn \<Rightarrow>
             (let p = ncols X; q = ncols Y
              in case regress_out linv conn X (Some Y) Y_new [0..<q] of
                   Inl e \<Rightarrow> Inl e
                 | Inr Y_new1 \<Rightarrow>
                     (if length conn < p then Inl IndexError
                      else
                        (let active_X = where_true (map (\<lambda>j. any_one (conn ! j)) [0..<p]);
                             active_Y = where_true (map (\<lambda>j. any_one (column conn j)) [0..<q]);
                             Yp = select_cols Y active_Y;
                             Xp = select_cols X active_X;
                             connectivity_new = map (\<lambda>r. map (\<lambda>c. conn ! r ! c) active_Y) active_X
                         in Inr (if center_data then center_cols X_new else X_new,
                                 if center_data then center_cols Y_new1 else Y_new1,
                                 Some connectivity_new)))))"

text \<open>The exact inverse of a \<open>1 \<times> 1\<close> matrix: what \<^verbatim>\<open>np.linalg.inv\<close> returns there, for
  running the builders on an example.\<close>

definition inv_1x1 :: "matrix \<Rightarrow> error + matrix" where
  "inv_1x1 M =
     (case M of
        [[x]] \<Rightarrow> (if x = Fin 0 then Inl LinAlgError else Inr [[fl_div (Fin 1) x]])
      | other \<Rightarrow> Inl LinAlgError)"

section \<open>The delay-embedding builder\<close>

text \<open>\<^verbatim>\<open>np.roll(M, l, axis=0)\<close>: row \<open>r\<close> of the result is row \<open>(r - l) mod n\<close> of \<open>M\<close>.\<close>

definition np_roll :: "int \<Rightarrow> 'a list list \<Rightarrow> 'a list list" where
  "np_roll l M = map (\<lambda>r. M ! nat ((int r - l) mod int (length M))) [0..<length M]"

text \<open>The Python slice \<^verbatim>\<open>xs[a:b]\<close>: a negative bound counts from the end, and both bounds
  are clipped to the sequence.\<close>

definition py_slice :: "'a list \<Rightarrow> int \<Rightarrow> int \<Rightarrow> 'a list" where
  "py_slice xs a b =
     (let n = int (length xs);
          lo = (if a < 0 then max (a + n) 0 else min a n);
          hi = (if b < 0 then max (b + n) 0 else min b n)
      in take (nat (hi - lo)) (drop (nat lo) xs))"

definition np_min :: "int list \<Rightarrow> int" where
  "np_min xs = fold min (tl xs) (hd xs)"

definition np_max_int :: "int list \<Rightarrow> int" where
  "np_max_int xs = fold max (tl xs) (hd xs)"

text \<open>Lines 525--530: the loop over the positions \<open>i\<close> of the lag list.\<close>

fun tde_lag_loop ::
  "matrix \<Rightarrow> nat \<Rightarrow> int list \<Rightarrow> int list \<Rightarrow> int list \<Rightarrow> nat list \<Rightarrow> matrix \<Rightarrow> error + matrix" where
  "tde_lag_loop data p lags ind_1 ind_2 [] X = Inr X"
| "tde_lag_loop data p lags ind_1 ind_2 (i # rest) X =
     (case take_rows data ind_1 of
        Inl err \<Rightarrow> Inl err
      | Inr seg \<Rightarrow>
          (let l = lags ! i;
               X_l = py_slice (np_roll l seg) (- np_min lags) (- np_max_int lags);
               ind_ch = map (\<lambda>c. i + c * length lags) [0..<p]
           in case assign_block X ind_2 ind_ch X_l of
                Inl err \<Rightarrow> Inl err
              | Inr X1 \<Rightarrow> tde_lag_loop data p lags ind_1 ind_2 rest X1))"

text \<open>Lines 522--532: the loop over the segments.\<close>

fun tde_segment_loop ::
  "matrix \<Rightarrow> nat \<Rightarrow> int list \<Rightarrow> nat \<Rightarrow> segments \<Rightarrow> matrix \<Rightarrow> segments
     \<Rightarrow> error + (matrix \<times> segments)" where
  "tde_segment_loop data p lags j [] X inew = Inr (X, inew)"
| "tde_segment_loop data p lags j (se # segs) X inew =
     (let rwindow = np_max_int lags - np_min lags;
          ind_1 = arange (fst se) (snd se);
          ind_2 = map (\<lambda>t. t - int j * rwindow) (arange (fst se) (snd se - rwindow))
      in case tde_lag_loop data p lags ind_1 ind_2 [0..<length lags] X of
           Inl err \<Rightarrow> Inl err
         | Inr X1 \<Rightarrow>
             (if ind_2 = [] then Inl IndexError
              else tde_segment_loop data p lags (Suc j) segs X1
                     (inew[j := (hd ind_2, last ind_2 + 1)])))"

text \<open>Lines 510--532: allocation and embedding. \<^verbatim>\<open>np.min\<close> of an empty lag list raises.\<close>

definition tde_embed :: "matrix \<Rightarrow> segments \<Rightarrow> int list \<Rightarrow> error + (matrix \<times> segments)" where
  "tde_embed data indices lags =
     (if lags = [] then Inl ValueError
      else
        (let T = int (length data); p = ncols data; N = length indices;
             rwindow = np_max_int lags - np_min lags
         in case np_zeros (T - int N * rwindow) (int (p * length lags)) of
              Inl err \<Rightarrow> Inl err
            | Inr X0 \<Rightarrow> tde_segment_loop data p lags 0 indices X0 (replicate N (0, 0))))"

text \<open>
  \<^verbatim>\<open>build_data_tde\<close>. The embedded matrix is standardised over all its rows, then handed
  to \<^verbatim>\<open>apply_pca\<close> when a PCA is asked for; the result carries the model only then.
\<close>

record 'm tde_result =
  tde_X :: matrix
  tde_indices :: segments
  tde_pcamodel :: "'m option option"

definition build_data_tde ::
  "'m pca_lib \<Rightarrow> matrix \<Rightarrow> segments \<Rightarrow> int list \<Rightarrow> dspec option \<Rightarrow> bool \<Rightarrow> error + 'm tde_result" where
  "build_data_tde lib data indices lags pca standardise_pc =
     (case tde_embed data indices lags of
        Inl err \<Rightarrow> Inl err
      | Inr XI \<Rightarrow>
          (let X = standardise_cols (fst XI)
           in case pca of
                None \<Rightarrow> Inr \<lparr>tde_X = X, tde_indices = snd XI, tde_pcamodel = None\<rparr>
              | Some d \<Rightarrow>
                  (case apply_pca lib [X] 0 d standardise_pc True of
                     Inl err \<Rightarrow> Inl err
                   | Inr HZM \<Rightarrow>
                       Inr \<lparr>tde_X = fst (snd HZM), tde_indices = snd XI,
                            tde_pcamodel = Some (snd (snd HZM))\<rparr>)))"

section \<open>The preprocessing pipeline\<close>

text \<open>
  The values \<^verbatim>\<open>dampen_extreme_peaks\<close> can take: \<^verbatim>\<open>None\<close>, a Python bool, a Python int, or
  something else that is truthy (a float, say). In Python \<^verbatim>\<open>bool\<close> is a subclass of
  \<^verbatim>\<open>int\<close>: \<^verbatim>\<open>isinstance(True, int)\<close> holds, and \<^verbatim>\<open>True\<close> is the number 1.
\<close>

datatype pyarg = ArgNone | ArgBool bool | ArgInt int | ArgFloat real

fun truthy :: "pyarg \<Rightarrow> bool" where
  "truthy ArgNone = False"
| "truthy (ArgBool b) = b"
| "truthy (ArgInt n) = (n \<noteq> 0)"
| "truthy (ArgFloat x) = (x \<noteq> 0)"

fun isinstance_int :: "pyarg \<Rightarrow> bool" where
  "isinstance_int (ArgBool b) = True"
| "isinstance_int (ArgInt n) = True"
| "isinstance_int a = False"

fun arg_number :: "pyarg \<Rightarrow> npfloat" where
  "arg_number (ArgBool b) = Fin (if b then 1 else 0)"
| "arg_number (ArgInt n) = Fin (real_of_int n)"
| "arg_number (ArgFloat x) = Fin x"
| "arg_number ArgNone = NaN"

text \<open>\<^verbatim>\<open>dampen_peaks\<close>, lines 125--130; \<^verbatim>\<open>np.std(X)\<close> is taken over all the entries.\<close>

definition dampen_peaks :: "matrix \<Rightarrow> npfloat \<Rightarrow> matrix" where
  "dampen_peaks X strength =
     (let s2 = fl_mul (Fin 2) (fl_std (concat X))
      in map (map (\<lambda>x. if fl_less s2 (fl_abs x)
                         then fl_mul (np_sign x)
                                (fl_add (fl_sub s2 (fl_div (fl_log s2) (fl_log strength)))
                                        (fl_div (fl_log (fl_abs x)) (fl_log strength)))
                         else x)) X)"

text \<open>
  The pattern \<^verbatim>\<open>for j in range(N): t = np.arange(indices[j,0],indices[j,1]);
  data[t,:] = f(data[t,:])\<close> that most stages follow, for data with \<open>p\<close> columns.
\<close>

fun per_segment :: "(matrix \<Rightarrow> matrix) \<Rightarrow> nat \<Rightarrow> segments \<Rightarrow> matrix \<Rightarrow> error + matrix" where
  "per_segment f p [] data = Inr data"
| "per_segment f p (se # segs) data =
     (let t = arange (fst se) (snd se)
      in case take_rows data t of
           Inl e \<Rightarrow> Inl e
         | Inr rows \<Rightarrow>
             (case assign_block data t [0..<p] (f rows) of
                Inl e \<Rightarrow> Inl e
              | Inr data1 \<Rightarrow> per_segment f p segs data1))"

text \<open>
  \<^verbatim>\<open>np.unwrap\<close> of one sequence, as NumPy documents it (period \<open>2\<pi>\<close>, discontinuity \<open>\<pi>\<close>):
  the jumps between neighbours are brought into \<open>[-\<pi>, \<pi>]\<close> and the corrections are
  accumulated. Called without an axis, \<^verbatim>\<open>np.unwrap\<close> works along the last axis: on a
  samples-by-channels array it unwraps each row, across the channels.
\<close>

fun fl_mod :: "npfloat \<Rightarrow> real \<Rightarrow> npfloat" where
  "fl_mod (Fin x) y = Fin (x - y * real_of_int \<lfloor>x / y\<rfloor>)"
| "fl_mod a y = NaN"

fun unwrap_from :: "npfloat \<Rightarrow> npfloat \<Rightarrow> npfloat list \<Rightarrow> npfloat list" where
  "unwrap_from prev acc [] = []"
| "unwrap_from prev acc (x # xs) =
     (let dd = fl_sub x prev;
          ddmod0 = fl_sub (fl_mod (fl_add dd (Fin pi)) (2 * pi)) (Fin pi);
          ddmod = (if fl_eq ddmod0 (Fin (- pi)) \<and> fl_less (Fin 0) dd then Fin pi else ddmod0);
          correct = (if fl_less (fl_abs dd) (Fin pi) then Fin 0 else fl_sub ddmod dd);
          acc1 = fl_add acc correct
      in fl_add x acc1 # unwrap_from x acc1 xs)"

definition unwrap_row :: "npfloat list \<Rightarrow> npfloat list" where
  "unwrap_row xs = (case xs of [] \<Rightarrow> [] | x # rest \<Rightarrow> x # unwrap_from x (Fin 0) rest)"

definition np_unwrap :: "matrix \<Rightarrow> matrix" where
  "np_unwrap M = map unwrap_row M"

text \<open>
  The signal-processing routines of SciPy are capabilities of the numerical library:
  the Butterworth design (which may raise) and the filter, the linear detrending, the
  analytic signal (an array of complex numbers of an abstract type, with their modulus
  and angle) and the polyphase resampling. The record also carries the one piece of
  double-precision arithmetic whose rounding decides an integer: \<open>lib_ceil_scaled ds fs n\<close>
  is the value of \<^verbatim>\<open>np.ceil(ds / fs * n)\<close> (lines 306--307) for a nonzero \<open>fs\<close>. The
  quotient and the product are each rounded, so this is not always the ceiling of the
  exact product: for \<open>ds = 9\<close>, \<open>fs = 11\<close> and \<open>n = 77\<close> it is 64.
\<close>

datatype filter_mode = Lowpass "pynum option" | Highpass pynum | Bandpass pynum pynum

record ('s, 'c) sig_lib =
  lib_butter :: "nat \<Rightarrow> filter_mode \<Rightarrow> pynum \<Rightarrow> error + 's"
  lib_sosfilt :: "'s \<Rightarrow> matrix \<Rightarrow> matrix"
  lib_detrend :: "matrix \<Rightarrow> matrix"
  lib_hilbert :: "matrix \<Rightarrow> 'c list list"
  lib_abs :: "'c \<Rightarrow> npfloat"
  lib_angle :: "'c \<Rightarrow> npfloat"
  lib_resample_poly :: "matrix \<Rightarrow> real \<Rightarrow> real \<Rightarrow> matrix"
  lib_ceil_scaled :: "pynum \<Rightarrow> pynum \<Rightarrow> int \<Rightarrow> int"

record prep_opts =
  opt_fs :: pynum
  opt_dampen_extreme_peaks :: pyarg
  opt_standardise :: bool
  opt_filter :: "(pynum \<times> pynum option) option"
  opt_detrend :: bool
  opt_onpower :: bool
  opt_onphase :: bool
  opt_pca :: "pynum option"
  opt_exact_pca :: bool
  opt_ica :: "pynum option"
  opt_ica_algorithm :: string
  opt_post_standardise :: "bool option"
  opt_downsample :: "pynum option"

text \<open>The defaults of the signature of \<^verbatim>\<open>preprocess_data\<close>.\<close>

definition default_opts :: prep_opts where
  "default_opts =
     \<lparr>opt_fs = PyInt 1, opt_dampen_extreme_peaks = ArgNone, opt_standardise = True,
      opt_filter = None, opt_detrend = False, opt_onpower = False, opt_onphase = False,
      opt_pca = None, opt_exact_pca = True, opt_ica = None, opt_ica_algorithm = ''parallel'',
      opt_post_standardise = None, opt_downsample = None\<rparr>"

text \<open>Lines 231--241: centering per segment, then dampening over the whole data set with
  the strength the argument resolves to.\<close>

definition stage_dampen :: "pyarg \<Rightarrow> segments \<Rightarrow> matrix \<Rightarrow> error + matrix" where
  "stage_dampen dampen_extreme_peaks indices data =
     (if truthy dampen_extreme_peaks then
        (case per_segment center_cols (ncols data) indices data of
           Inl e \<Rightarrow> Inl e
         | Inr data1 \<Rightarrow>
             Inr (dampen_peaks data1
                    (if isinstance_int dampen_extreme_peaks then arg_number dampen_extreme_peaks
                     else Fin 5)))
      else Inr data)"

text \<open>Lines 243--247 (and 299--303).\<close>

definition stage_standardise :: "bool \<Rightarrow> segments \<Rightarrow> matrix \<Rightarrow> error + matrix" where
  "stage_standardise on indices data =
     (if on then per_segment standardise_cols (ncols data) indices data else Inr data)"

text \<open>Lines 249--259.\<close>

definition stage_filter ::
  "('s, 'c) sig_lib \<Rightarrow> (pynum \<times> pynum option) option \<Rightarrow> pynum \<Rightarrow> segments \<Rightarrow> matrix \<Rightarrow> error + matrix" where
  "stage_filter lib flt fs indices data =
     (case flt of
        None \<Rightarrow> Inr data
      | Some lh \<Rightarrow>
          (case lib_butter lib 6
                  (if num_val (fst lh) = 0 then Lowpass (snd lh)
                   else (case snd lh of None \<Rightarrow> Highpass (fst lh) | Some h \<Rightarrow> Bandpass (fst lh) h))
                  fs of
             Inl e \<Rightarrow> Inl e
           | Inr sos \<Rightarrow> per_segment (lib_sosfilt lib sos) (ncols data) indices data))"

text \<open>Lines 261--264.\<close>

definition stage_detrend :: "('s, 'c) sig_lib \<Rightarrow> bool \<Rightarrow> segments \<Rightarrow> matrix \<Rightarrow> error + matrix" where
  "stage_detrend lib on indices data =
     (if on then per_segment (lib_detrend lib) (ncols data) indices data else Inr data)"

text \<open>
  Lines 276--283, both power and phase: the data are duplicated side by side, and for each
  segment the analytic signal of the first \<open>p\<close> columns gives the amplitude (written to
  the first \<open>p\<close> columns) and \<^verbatim>\<open>np.unwrap(np.angle(...))\<close> (written to the last \<open>p\<close>).
\<close>

fun power_phase_loop :: "('s, 'c) sig_lib \<Rightarrow> nat \<Rightarrow> segments \<Rightarrow> matrix \<Rightarrow> error + matrix" where
  "power_phase_loop lib p [] data = Inr data"
| "power_phase_loop lib p (se # segs) data =
     (let t = arange (fst se) (snd se)
      in case take_rows data t of
           Inl e \<Rightarrow> Inl e
         | Inr rows \<Rightarrow>
             (let analytical_signal = lib_hilbert lib (map (take p) rows)
              in case assign_block data t [0..<p] (map (map (lib_abs lib)) analytical_signal) of
                   Inl e \<Rightarrow> Inl e
                 | Inr data1 \<Rightarrow>
                     (case assign_block data1 t [p..<2 * p]
                             (np_unwrap (map (map (lib_angle lib)) analytical_signal)) of
                        Inl e \<Rightarrow> Inl e
                      | Inr data2 \<Rightarrow> power_phase_loop lib p segs data2)))"

text \<open>Lines 266--283.\<close>

definition stage_power_phase ::
  "('s, 'c) sig_lib \<Rightarrow> bool \<Rightarrow> bool \<Rightarrow> segments \<Rightarrow> matrix \<Rightarrow> error + matrix" where
  "stage_power_phase lib onpower onphase indices data =
     (if onpower then
        (if onphase then power_phase_loop lib (ncols data) indices (map (\<lambda>r. r @ r) data)
         else per_segment (\<lambda>rows. map (map (lib_abs lib)) (lib_hilbert lib rows)) (ncols data) indices data)
      else if onphase then
        per_segment (\<lambda>rows. np_unwrap (map (map (lib_angle lib)) (lib_hilbert lib rows)))
          (ncols data) indices data
      else Inr data)"

text \<open>Lines 285--293: the reduction. The call at line 286 passes \<^verbatim>\<open>exact_pca\<close> in the
  position of \<^verbatim>\<open>whitening\<close>. The data are the pipeline's own copy.\<close>

definition stage_reduce ::
  "'m pca_lib \<Rightarrow> 'i ica_lib \<Rightarrow> prep_opts \<Rightarrow> matrix \<Rightarrow> error + (matrix \<times> 'm option option \<times> 'i option)" where
  "stage_reduce plib ilib opts data =
     (case (case opt_pca opts of
              None \<Rightarrow> Inr (data, None)
            | Some d \<Rightarrow>
                (case opt_ica opts of
                   Some i \<Rightarrow> Inr (data, None)
                 | None \<Rightarrow>
                     (case apply_pca plib [data] 0 (DNum d) (opt_exact_pca opts) True of
                        Inl e \<Rightarrow> Inl e
                      | Inr HZM \<Rightarrow> Inr (fst (snd HZM), Some (snd (snd HZM)))))) of
        Inl e \<Rightarrow> Inl e
      | Inr DP \<Rightarrow>
          (case opt_ica opts of
             None \<Rightarrow> Inr (fst DP, snd DP, None)
           | Some i \<Rightarrow>
               (case apply_ica plib ilib (fst DP) (DNum i) (opt_ica_algorithm opts) of
                  Inl e \<Rightarrow> Inl e
                | Inr ZM \<Rightarrow> Inr (fst ZM, snd DP, Some (snd ZM)))))"

definition num_truthy :: "pynum option \<Rightarrow> bool" where
  "num_truthy d = (case d of None \<Rightarrow> False | Some n \<Rightarrow> num_val n \<noteq> 0)"

text \<open>Lines 295--303.\<close>

definition stage_post_standardise :: "prep_opts \<Rightarrow> segments \<Rightarrow> matrix \<Rightarrow> error + matrix" where
  "stage_post_standardise opts indices data =
     (let post = (case opt_post_standardise opts of
                    None \<Rightarrow> num_truthy (opt_ica opts)
                  | Some b \<Rightarrow> b)
      in if num_truthy (opt_pca opts) then stage_standardise post indices data
         else if num_truthy (opt_ica opts) then stage_standardise post indices data
         else Inr data)"

text \<open>
  Modelled from the spec: \<^verbatim>\<open>auxiliary.make_indices_from_T\<close> is not among the sources; the
  spec has it return, for a sequence of segment lengths, the SegmentIndex of the
  cumulative sums starting at 0.
\<close>

fun make_indices_from_T :: "int \<Rightarrow> int list \<Rightarrow> segments" where
  "make_indices_from_T start [] = []"
| "make_indices_from_T start (n # ns) = (start, start + n) # make_indices_from_T (start + n) ns"

fun resample_loop ::
  "('s, 'c) sig_lib \<Rightarrow> nat \<Rightarrow> real \<Rightarrow> real \<Rightarrow> matrix \<Rightarrow> segments \<Rightarrow> segments \<Rightarrow> matrix \<Rightarrow> error + matrix" where
  "resample_loop lib p up down data (se # segs) (sn # snew) data_new =
     (case take_rows data (arange (fst se) (snd se)) of
        Inl e \<Rightarrow> Inl e
      | Inr rows \<Rightarrow>
          (case assign_block data_new (arange (fst sn) (snd sn)) [0..<p]
                  (lib_resample_poly lib rows up down) of
             Inl e \<Rightarrow> Inl e
           | Inr d1 \<Rightarrow> resample_loop lib p up down data segs snew d1))"
| "resample_loop lib p up down data segs snew data_new = Inr data_new"

text \<open>Lines 305--318. \<^verbatim>\<open>math.gcd\<close> takes integers only; a rate of zero cannot divide.\<close>

definition stage_downsample ::
  "('s, 'c) sig_lib \<Rightarrow> pynum option \<Rightarrow> pynum \<Rightarrow> segments \<Rightarrow> matrix \<Rightarrow> error + (matrix \<times> segments)" where
  "stage_downsample lib downsample fs indices data =
     (case downsample of
        None \<Rightarrow> Inr (data, indices)
      | Some ds \<Rightarrow>
          (if num_val fs = 0 then Inl ZeroDivisionError
           else
             (let Tnew = map (\<lambda>se. lib_ceil_scaled lib ds fs (snd se - fst se)) indices;
                  indices_new = make_indices_from_T 0 Tnew
              in case np_zeros (sum_list Tnew) (int (ncols data)) of
                   Inl e \<Rightarrow> Inl e
                 | Inr data_new \<Rightarrow>
                     (case ds of
                        PyFloat x \<Rightarrow> Inl TypeError
                      | PyInt a \<Rightarrow>
                          (case fs of
                             PyFloat y \<Rightarrow> Inl TypeError
                           | PyInt b \<Rightarrow>
                               (case resample_loop lib (ncols data)
                                       (real_of_int a / real_of_int (gcd a b))
                                       (real_of_int b / real_of_int (gcd a b))
                                       data indices indices_new data_new of
                                  Inl e \<Rightarrow> Inl e
                                | Inr d \<Rightarrow> Inr (d, indices_new)))))))"

text \<open>
  \<^verbatim>\<open>preprocess_data\<close>: the stages in their fixed order, on a copy of the data (line 229).
  The log carries the options as given and the fitted models.
\<close>

record ('m, 'i) prep_result =
  prep_data :: matrix
  prep_indices :: segments
  prep_log_opts :: prep_opts
  prep_pcamodel :: "'m option option"
  prep_icamodel :: "'i option"

definition preprocess_data ::
  "('s, 'c) sig_lib \<Rightarrow> 'm pca_lib \<Rightarrow> 'i ica_lib \<Rightarrow> matrix \<Rightarrow> segments \<Rightarrow> prep_opts
     \<Rightarrow> error + ('m, 'i) prep_result" where
  "preprocess_data lib plib ilib data indices opts =
     (case stage_dampen (opt_dampen_extreme_peaks opts) indices data of
        Inl e \<Rightarrow> Inl e
      | Inr d1 \<Rightarrow>
     (case stage_standardise (opt_standardise opts) indices d1 of
        Inl e \<Rightarrow> Inl e
      | Inr d2 \<Rightarrow>
     (case stage_filter lib (opt_filter opts) (opt_fs opts) indices d2 of
        Inl e \<Rightarrow> Inl e
      | Inr d3 \<Rightarrow>
     (case stage_detrend lib (opt_detrend opts) indices d3 of
        Inl e \<Rightarrow> Inl e
      | Inr d4 \<Rightarrow>
     (case stage_power_phase lib (opt_onpower opts) (opt_onphase opts) indices d4 of
        Inl e \<Rightarrow> Inl e
      | Inr d5 \<Rightarrow>
     (case stage_reduce plib ilib opts d5 of
        Inl e \<Rightarrow> Inl e
      | Inr DPI \<Rightarrow>
     (case stage_post_standardise opts indices (fst DPI) of
        Inl e \<Rightarrow> Inl e
      | Inr d7 \<Rightarrow>
     (case stage_downsample lib (opt_downsample opts) (opt_fs opts) indices d7 of
        Inl e \<Rightarrow> Inl e
      | Inr DI \<Rightarrow>
          Inr \<lparr>prep_data = fst DI, prep_indices = snd DI, prep_log_opts = opts,
               prep_pcamodel = fst (snd DPI), prep_icamodel = snd (snd DPI)\<rparr>))))))))"

section \<open>Predicates and expected values used in the statements\<close>

text \<open>
  A SegmentIndex as the input contract has it: the segments are ordered, do not overlap,
  start at or after \<open>lo\<close> and end at or before \<open>T\<close>; moreover each is longer than the
  window \<open>w\<close> of the builder.
\<close>

fun valid_segments :: "int \<Rightarrow> int \<Rightarrow> int \<Rightarrow> segments \<Rightarrow> bool" where
  "valid_segments lo T w [] = (lo \<le> T)"
| "valid_segments lo T w (se # segs) =
     (lo \<le> fst se \<and> fst se + w < snd se \<and> valid_segments (snd se) T w segs)"

text \<open>A row of the predictor matrix after the lag blocks \<open>lags\<close> have been written for
  row \<open>t\<close> of a segment that starts at \<open>s\<close>.\<close>

definition ar_row :: "matrix \<Rightarrow> nat \<Rightarrow> int \<Rightarrow> int \<Rightarrow> nat \<Rightarrow> nat list \<Rightarrow> npfloat list \<Rightarrow> npfloat list" where
  "ar_row data p k s t lags row =
     fold (\<lambda>i r. put_row (map (\<lambda>c. c + i * p) [0..<p]) (data ! nat (s + k - (int i + 1) + int t)) r) lags row"

text \<open>What the autoregressive loops leave for segment number \<open>q\<close>: its entry of the new
  SegmentIndex, its target rows and its predictor blocks.\<close>

definition ar_segment_post ::
  "matrix \<Rightarrow> nat \<Rightarrow> int \<Rightarrow> matrix \<Rightarrow> matrix \<Rightarrow> segments \<Rightarrow> nat \<Rightarrow> int \<times> int \<Rightarrow> bool" where
  "ar_segment_post data p k X Y inew q se =
     (inew ! q = (fst se - int q * k, snd se - k - int q * k) \<and>
      (\<forall>t < nat (snd se - fst se - k).
         Y ! (nat (fst se - int q * k) + t) = data ! (nat (fst se + k) + t) \<and>
         (\<forall>i < nat k. \<forall>c < p.
            X ! (nat (fst se - int q * k) + t) ! (i * p + c)
              = data ! nat (fst se + k - (int i + 1) + int t) ! c)))"

text \<open>The SegmentIndex a windowed builder returns: segment \<open>m\<close> loses \<open>k\<close> rows and
  moves up by the \<open>m * k\<close> rows the segments before it lost.\<close>

definition trimmed_indices :: "int \<Rightarrow> segments \<Rightarrow> segments" where
  "trimmed_indices k indices =
     map (\<lambda>m. (fst (indices ! m) - int m * k, snd (indices ! m) - k - int m * k)) [0..<length indices]"

text \<open>The source row that the delay embedding puts at row \<open>t\<close> of a segment
  \<open>[s, e)\<close> for the lag at position \<open>i\<close>: the segment is rotated by the lag, then rows
  \<open>-minlag\<close> onwards are kept.\<close>

definition tde_src :: "matrix \<Rightarrow> int list \<Rightarrow> int \<Rightarrow> int \<Rightarrow> nat \<Rightarrow> nat \<Rightarrow> npfloat list" where
  "tde_src data lags s e i t =
     data ! (nat s + nat ((int t - np_min lags - lags ! i) mod (e - s)))"

text \<open>A row of the embedded matrix after the lag positions \<open>js\<close> have been written.\<close>

definition tde_row ::
  "matrix \<Rightarrow> nat \<Rightarrow> int list \<Rightarrow> int \<Rightarrow> int \<Rightarrow> nat \<Rightarrow> nat list \<Rightarrow> npfloat list \<Rightarrow> npfloat list" where
  "tde_row data p lags s e t js row =
     fold (\<lambda>i r. put_row (map (\<lambda>c. i + c * length lags) [0..<p]) (tde_src data lags s e i t) r) js row"

text \<open>What the delay-embedding loops leave for segment number \<open>q\<close>.\<close>

definition tde_segment_post ::
  "matrix \<Rightarrow> nat \<Rightarrow> int list \<Rightarrow> matrix \<Rightarrow> segments \<Rightarrow> nat \<Rightarrow> int \<times> int \<Rightarrow> bool" where
  "tde_segment_post data p lags X inew q se =
     (let w = np_max_int lags - np_min lags
      in inew ! q = (fst se - int q * w, snd se - w - int q * w) \<and>
         (\<forall>t < nat (snd se - fst se - w). \<forall>i < length lags. \<forall>c < p.
            X ! (nat (fst se - int q * w) + t) ! (c * length lags + i)
              = tde_src data lags (fst se) (snd se) i t ! c))"

text \<open>Ten samples of one channel with zero mean: nine at \<open>-1\<close> and a peak at \<open>9\<close>. Their
  standard deviation is 3, so the peak is the only sample beyond two deviations.\<close>

definition peak_example :: matrix where
  "peak_example = [[Fin (- 1)], [Fin (- 1)], [Fin (- 1)], [Fin (- 1)], [Fin (- 1)], [Fin (- 1)], [Fin (- 1)], [Fin (- 1)], [Fin (- 1)], [Fin 9]]"

text \<open>
  A stand-in for FastICA on a single channel, for running \<^verbatim>\<open>apply_ica\<close> on an example.
  With \<^verbatim>\<open>whiten='unit-variance'\<close> the one component of a one-channel recording is the
  standardised channel, up to its sign; the sign is that of the unmixing weight the
  iteration starts from. Line 95 builds the estimator without \<^verbatim>\<open>random_state\<close>, so that
  weight is drawn from NumPy's global generator: it is a choice of the run, not of the
  input. The argument \<open>negated\<close> is that choice, and the fitted model records it.
\<close>

definition fastica_one_channel :: "bool \<Rightarrow> bool ica_lib" where
  "fastica_one_channel negated =
     \<lparr>ica_fit = (\<lambda>ncomp algorithm X. Inr negated),
      ica_transform = (\<lambda>model X. if model then map (map (\<lambda>x. fl_mul x (Fin (- 1)))) (standardise_cols X)
                                  else standardise_cols X)\<rparr>"

text \<open>One channel, five samples, of mean 0 and standard deviation 2.\<close>

definition ica_example :: matrix where
  "ica_example = [[Fin (- 4)], [Fin 1], [Fin 1], [Fin 1], [Fin 1]]"

section \<open>Index arithmetic and block assignment\<close>

lemma arange_map: "arange a b = map (\<lambda>t. a + int t) [0..<nat (b - a)]"
proof (rule nth_equalityI)
  show "length (arange a b) = length (map (\<lambda>t. a + int t) [0..<nat (b - a)])"
    by (simp add: arange_def)
next
  fix i assume "i < length (arange a b)"
  then show "arange a b ! i = map (\<lambda>t. a + int t) [0..<nat (b - a)] ! i"
    by (simp add: arange_def)
qed

lemma np_indices_nat:
  "list_all (\<lambda>i. 0 \<le> i \<and> i < int n) js \<Longrightarrow> np_indices n js = Inr (map nat js)"
  by (induction js) (simp_all add: np_index_def)

lemma fold_update_length:
  "length (fold (\<lambda>rv A. A[fst rv := f (snd rv) (A ! fst rv)]) zs M) = length M"
  by (induction zs arbitrary: M) simp_all

lemma fold_update_other:
  "r \<notin> fst ` set zs \<Longrightarrow> fold (\<lambda>rv A. A[fst rv := f (snd rv) (A ! fst rv)]) zs M ! r = M ! r"
  by (induction zs arbitrary: M) (auto simp: nth_list_update)

lemma fold_update_hit:
  "distinct rs \<Longrightarrow> length vs = length rs \<Longrightarrow> t < length rs \<Longrightarrow> rs ! t < length M \<Longrightarrow>
   fold (\<lambda>rv A. A[fst rv := f (snd rv) (A ! fst rv)]) (zip rs vs) M ! (rs ! t) = f (vs ! t) (M ! (rs ! t))"
proof (induction rs arbitrary: vs M t)
  case Nil
  then show ?case by simp
next
  case (Cons r rs)
  then obtain v vs' where vs: "vs = v # vs'" by (cases vs) auto
  show ?case
  proof (cases t)
    case 0
    have "r \<notin> fst ` set (zip rs vs')" using Cons.prems(1) by (auto dest: set_zip_leftD)
    then show ?thesis using Cons.prems 0 vs by (simp add: fold_update_other)
  next
    case (Suc t')
    have ne: "rs ! t' \<noteq> r" using Cons.prems Suc by auto
    have "fold (\<lambda>rv A. A[fst rv := f (snd rv) (A ! fst rv)]) (zip rs vs') (M[r := f v (M ! r)]) ! (rs ! t')
        = f (vs' ! t') (M[r := f v (M ! r)] ! (rs ! t'))"
      using Cons.prems Suc vs by (intro Cons.IH) auto
    then show ?thesis using Suc vs ne by simp
  qed
qed

lemma put_row_length: "length (put_row cols vals row) = length row"
  unfolding put_row_def by (induction "zip cols vals" arbitrary: cols vals row) (simp_all add: fold_update_length [where f = "\<lambda>v old. v", simplified])

lemma put_row_hit:
  "distinct cols \<Longrightarrow> length vals = length cols \<Longrightarrow> c < length cols \<Longrightarrow> cols ! c < length row \<Longrightarrow>
   put_row cols vals row ! (cols ! c) = vals ! c"
  unfolding put_row_def
  using fold_update_hit [where f = "\<lambda>v old. v" and rs = cols and vs = vals and t = c and M = row]
  by simp

lemma put_row_other:
  assumes "x \<notin> set cols"
  shows "put_row cols vals row ! x = row ! x"
proof -
  have "x \<notin> fst ` set (zip cols vals)" using assms by (auto dest: set_zip_leftD)
  then show ?thesis
    unfolding put_row_def
    using fold_update_other [where f = "\<lambda>v old. v" and r = x and zs = "zip cols vals" and M = row]
    by simp
qed

lemma put_row_all:
  "length vals = p \<Longrightarrow> length row = p \<Longrightarrow> put_row [0..<p] vals row = vals"
proof (rule nth_equalityI)
  assume a: "length vals = p" "length row = p"
  show "length (put_row [0..<p] vals row) = length vals" using a by (simp add: put_row_length)
  fix i assume "i < length (put_row [0..<p] vals row)"
  then have i: "i < p" using a by (simp add: put_row_length)
  have "put_row [0..<p] vals row ! ([0..<p] ! i) = vals ! i"
    using a i by (intro put_row_hit) simp_all
  then show "put_row [0..<p] vals row ! i = vals ! i" using i by simp
qed

lemma bcast_same: "length xs = n \<Longrightarrow> bcast n xs = Some xs"
  by (simp add: bcast_def)

lemma bcast_rows_same: "rect n V \<Longrightarrow> bcast_rows n V = Some V"
  by (induction V) (simp_all add: rect_def bcast_def)

lemma assign_block_range:
  assumes "length V = n" "rect (length cols) V" "a + n \<le> length M"
  shows "\<exists>A. assign_block M (map (\<lambda>t. int (a + t)) [0..<n]) cols V = Inr A
          \<and> length A = length M
          \<and> (\<forall>r. r < a \<or> a + n \<le> r \<longrightarrow> A ! r = M ! r)
          \<and> (\<forall>t<n. A ! (a + t) = put_row cols (V ! t) (M ! (a + t)))"
proof -
  let ?rows = "map (\<lambda>t. int (a + t)) [0..<n]"
  let ?rs = "map (\<lambda>t. a + t) [0..<n]"
  let ?A = "fold (\<lambda>rv A. A[fst rv := put_row cols (snd rv) (A ! fst rv)]) (zip ?rs V) M"
  have idx: "np_indices (length M) ?rows = Inr ?rs"
  proof -
    have "list_all (\<lambda>i. 0 \<le> i \<and> i < int (length M)) ?rows"
      using assms(3) by (auto simp: list_all_iff)
    then have "np_indices (length M) ?rows = Inr (map nat ?rows)" by (rule np_indices_nat)
    then show ?thesis by (simp add: comp_def nat_int_add)
  qed
  have eq: "assign_block M ?rows cols V = Inr ?A"
    using assms(1,2) idx by (simp add: assign_block_def bcast_same bcast_rows_same)
  have len: "length ?A = length M" by (rule fold_update_length)
  have other: "A ! r = M ! r" if "r < a \<or> a + n \<le> r" and "A = ?A" for r A
  proof -
    have "r \<notin> fst ` set (zip ?rs V)" using that(1) by (auto dest!: set_zip_leftD)
    then show ?thesis unfolding that(2) by (rule fold_update_other)
  qed
  have hit: "?A ! (a + t) = put_row cols (V ! t) (M ! (a + t))" if "t < n" for t
  proof -
    have d: "distinct ?rs" by (simp add: distinct_map inj_on_def)
    have "?A ! (?rs ! t) = put_row cols (V ! t) (M ! (?rs ! t))"
      using that assms(1,3) d by (intro fold_update_hit) simp_all
    then show ?thesis using that by simp
  qed
  show ?thesis using eq len other hit by blast
qed

section \<open>The autoregressive embedding\<close>

lemma rect_nth: "rect p M \<Longrightarrow> r < length M \<Longrightarrow> length (M ! r) = p"
  by (simp add: rect_def list_all_length)

lemma rectI: "(\<And>r. r < length M \<Longrightarrow> length (M ! r) = p) \<Longrightarrow> rect p M"
  by (simp add: rect_def list_all_length)

lemma take_rows_range:
  assumes "0 \<le> a" "b \<le> int (length M)"
  shows "take_rows M (arange a b) = Inr (map (\<lambda>t. M ! (nat a + t)) [0..<nat (b - a)])"
proof -
  have "list_all (\<lambda>i. 0 \<le> i \<and> i < int (length M)) (arange a b)"
    using assms by (auto simp: list_all_iff arange_def)
  then have "np_indices (length M) (arange a b) = Inr (map nat (arange a b))"
    by (rule np_indices_nat)
  moreover have "map (\<lambda>r. M ! r) (map nat (arange a b)) = map (\<lambda>t. M ! (nat a + t)) [0..<nat (b - a)]"
    using assms(1) by (simp add: arange_map comp_def nat_add_distrib)
  ultimately show ?thesis by (simp add: take_rows_def)
qed

lemma ar_row_length: "length (ar_row data p k s t lags row) = length row"
  unfolding ar_row_def by (induction lags arbitrary: row) (simp_all add: put_row_length)

lemma ar_lag_loop_ok:
  assumes "rect p data" "0 \<le> s" "e \<le> int (length data)" "s + k \<le> e"
    and "n = nat (e - s - k)" "a + n \<le> length X"
    and "list_all (\<lambda>i. int i < k) lags"
  shows "\<exists>X'. ar_lag_loop data p k s e (map (\<lambda>t. int (a + t)) [0..<n]) lags X = Inr X'
          \<and> length X' = length X
          \<and> (\<forall>r. r < a \<or> a + n \<le> r \<longrightarrow> X' ! r = X ! r)
          \<and> (\<forall>t<n. X' ! (a + t) = ar_row data p k s t lags (X ! (a + t)))"
  using assms(6,7)
proof (induction lags arbitrary: X)
  case Nil
  then show ?case by (simp add: ar_row_def)
next
  case (Cons i rest)
  let ?cols = "map (\<lambda>c. c + i * p) [0..<p]"
  let ?V = "map (\<lambda>t. data ! (nat (s + k - (int i + 1)) + t)) [0..<n]"
  have ik: "int i < k" using Cons.prems(2) by simp
  have tr: "take_rows data (arange (s + k - (int i + 1)) (e - (int i + 1))) = Inr ?V"
  proof -
    have "nat (e - (int i + 1) - (s + k - (int i + 1))) = n" using assms(5) by simp
    then show ?thesis
      using take_rows_range [of "s + k - (int i + 1)" "e - (int i + 1)" data] assms(2,3) ik by simp
  qed
  have rv: "rect (length ?cols) ?V"
  proof (rule rectI)
    fix r assume "r < length ?V"
    then have r: "r < n" by simp
    have "nat (s + k - (int i + 1)) + r < length data"
      using r assms(2,3,4,5) ik by linarith
    then show "length (?V ! r) = length ?cols" using r assms(1) by (simp add: rect_nth)
  qed
  obtain X1 where X1: "assign_block X (map (\<lambda>t. int (a + t)) [0..<n]) ?cols ?V = Inr X1"
      "length X1 = length X"
      "\<forall>r. r < a \<or> a + n \<le> r \<longrightarrow> X1 ! r = X ! r"
      "\<forall>t<n. X1 ! (a + t) = put_row ?cols (?V ! t) (X ! (a + t))"
    using assign_block_range [of ?V n ?cols a X] rv Cons.prems(1) by auto
  obtain X' where X': "ar_lag_loop data p k s e (map (\<lambda>t. int (a + t)) [0..<n]) rest X1 = Inr X'"
      "length X' = length X1"
      "\<forall>r. r < a \<or> a + n \<le> r \<longrightarrow> X' ! r = X1 ! r"
      "\<forall>t<n. X' ! (a + t) = ar_row data p k s t rest (X1 ! (a + t))"
    using Cons.IH [of X1] Cons.prems X1(2) by auto
  have step: "ar_lag_loop data p k s e (map (\<lambda>t. int (a + t)) [0..<n]) (i # rest) X = Inr X'"
    using tr X1(1) X'(1) by simp
  have rows: "X' ! (a + t) = ar_row data p k s t (i # rest) (X ! (a + t))" if "t < n" for t
  proof -
    have "nat (s + k - (int i + 1)) + t = nat (s + k - (int i + 1) + int t)"
      using assms(2) ik by linarith
    then show ?thesis using that X'(4) X1(4) by (simp add: ar_row_def)
  qed
  show ?case using step X'(2,3) X1(2,3) rows by auto
qed

lemma block_div: "c < p \<Longrightarrow> (i * p + c) div p = (i::nat)"
  by simp

lemma block_inj: "c < p \<Longrightarrow> c' < p \<Longrightarrow> i * p + c = i' * p + c' \<Longrightarrow> i = (i'::nat)"
  by (metis block_div)

lemma block_notin:
  assumes "c < p" "i \<noteq> i'"
  shows "i * p + c \<notin> set (map (\<lambda>c'. c' + i' * p) [0..<p])"
proof
  note c = assms(1) and ne = assms(2)
  assume "i * p + c \<in> set (map (\<lambda>c'. c' + i' * p) [0..<p])"
  then have "i * p + c \<in> (\<lambda>c'. c' + i' * p) ` set [0..<p]" unfolding set_map .
  then obtain c' where "c' \<in> set [0..<p]" "i * p + c = c' + i' * p" by blast
  then have "c' < p" by simp
  with \<open>i * p + c = c' + i' * p\<close> have "c' < p" "i * p + c = c' + i' * p" by simp_all
  then have "i = i'" using c block_inj [of c p c' i i'] by (simp add: add.commute)
  then show False using ne by simp
qed

lemma ar_row_untouched:
  "i \<notin> set lags \<Longrightarrow> c < p \<Longrightarrow> ar_row data p k s t lags row ! (i * p + c) = row ! (i * p + c)"
proof (induction lags arbitrary: row)
  case Nil
  then show ?case by (simp add: ar_row_def)
next
  case (Cons i' rest)
  have "ar_row data p k s t (i' # rest) row
      = ar_row data p k s t rest (put_row (map (\<lambda>c. c + i' * p) [0..<p]) (data ! nat (s + k - (int i' + 1) + int t)) row)"
    by (simp add: ar_row_def)
  moreover have "i * p + c \<notin> set (map (\<lambda>c'. c' + i' * p) [0..<p])"
    using Cons.prems by (intro block_notin) auto
  ultimately show ?case using Cons by (simp add: put_row_other)
qed

lemma ar_row_entry:
  assumes "distinct lags" "i \<in> set lags" "c < p" "i * p + c < length row"
    and "\<forall>i'\<in>set lags. length (data ! nat (s + k - (int i' + 1) + int t)) = p"
  shows "ar_row data p k s t lags row ! (i * p + c) = data ! nat (s + k - (int i + 1) + int t) ! c"
  using assms
proof (induction lags arbitrary: row)
  case Nil
  then show ?case by simp
next
  case (Cons i' rest)
  let ?cols = "map (\<lambda>c. c + i' * p) [0..<p]"
  let ?v = "data ! nat (s + k - (int i' + 1) + int t)"
  let ?row1 = "put_row ?cols ?v row"
  have unf: "ar_row data p k s t (i' # rest) row = ar_row data p k s t rest ?row1"
    by (simp add: ar_row_def)
  show ?case
  proof (cases "i \<in> set rest")
    case True
    then show ?thesis using Cons unf by (simp add: put_row_length)
  next
    case False
    then have ii: "i = i'" using Cons.prems(2) by simp
    have "ar_row data p k s t rest ?row1 ! (i * p + c) = ?row1 ! (i * p + c)"
      using False Cons.prems(3) by (rule ar_row_untouched)
    moreover have "?row1 ! (?cols ! c) = ?v ! c"
      using Cons.prems ii by (intro put_row_hit) (simp_all add: distinct_map inj_on_def add.commute)
    ultimately show ?thesis using unf ii Cons.prems(3) by (simp add: add.commute)
  qed
qed

lemma valid_segments_bound:
  "valid_segments lo T w segs \<Longrightarrow> 0 \<le> w \<Longrightarrow> lo + int (length segs) * w \<le> T"
proof (induction segs arbitrary: lo)
  case Nil
  then show ?case by simp
next
  case (Cons se segs)
  then have "snd se + int (length segs) * w \<le> T" by simp
  moreover have "lo \<le> fst se" "fst se + w < snd se" using Cons.prems by simp_all
  ultimately show ?case by (simp add: algebra_simps)
qed

lemma ind_2_range:
  assumes "int j * k \<le> s"
  shows "map (\<lambda>t. t - int j * k) (arange s (e - k)) = map (\<lambda>t. int (nat (s - int j * k) + t)) [0..<nat (e - k - s)]"
  using assms by (simp add: arange_map comp_def)

lemma block_bound: "i < K \<Longrightarrow> c < p \<Longrightarrow> i * p + c < p * (K::nat)"
proof -
  assume a: "i < K" "c < p"
  then have "Suc i * p \<le> K * p" by (intro mult_le_mono1) simp
  then show ?thesis using a by (simp add: mult.commute)
qed

lemma ar_segment_step:
  assumes k: "1 \<le> k" and rd: "rect p data"
    and s: "int j * k \<le> s" "0 \<le> s" and e: "s + k < e" "e \<le> int (length data)"
    and a: "a = nat (s - int j * k)" and n: "n = nat (e - k - s)"
    and R: "a + n \<le> R" "length X = R" "length Y = R" "rect (p * nat k) X" "rect p Y"
  shows "\<exists>Rm Y1 X1. take_rows data (arange (s + k) e) = Inr Rm
      \<and> assign_block Y (map (\<lambda>t. t - int j * k) (arange s (e - k))) [0..<p] Rm = Inr Y1
      \<and> ar_lag_loop data p k s e (map (\<lambda>t. t - int j * k) (arange s (e - k))) [0..<nat k] X = Inr X1
      \<and> length X1 = R \<and> length Y1 = R \<and> rect (p * nat k) X1 \<and> rect p Y1
      \<and> (\<forall>r. r < a \<or> a + n \<le> r \<longrightarrow> X1 ! r = X ! r \<and> Y1 ! r = Y ! r)
      \<and> (\<forall>t<n. Y1 ! (a + t) = data ! (nat (s + k) + t)
             \<and> (\<forall>i<nat k. \<forall>c<p. X1 ! (a + t) ! (i * p + c) = data ! nat (s + k - (int i + 1) + int t) ! c))"
proof -
  let ?ind2 = "map (\<lambda>t. t - int j * k) (arange s (e - k))"
  let ?Rm = "map (\<lambda>t. data ! (nat (s + k) + t)) [0..<n]"
  have ind2: "?ind2 = map (\<lambda>t. int (a + t)) [0..<n]"
    using ind_2_range [OF s(1)] a n by simp
  have tr: "take_rows data (arange (s + k) e) = Inr ?Rm"
  proof -
    have "nat (e - (s + k)) = n" using n by (simp add: algebra_simps)
    then show ?thesis using take_rows_range [of "s + k" e data] s(2) k e(2) by simp
  qed
  have drow: "length (data ! r) = p" if "r < length data" for r
    using rd that by (rule rect_nth)
  have rRm: "rect (length [0..<p]) ?Rm"
  proof (rule rectI)
    fix r assume "r < length ?Rm"
    then have r: "r < n" by simp
    have "nat (s + k) + r < length data" using r n e s(2) k by linarith
    then show "length (?Rm ! r) = length [0..<p]" using r by (simp add: drow)
  qed
  obtain Y1 where Y1: "assign_block Y (map (\<lambda>t. int (a + t)) [0..<n]) [0..<p] ?Rm = Inr Y1"
      "length Y1 = length Y"
      "\<forall>r. r < a \<or> a + n \<le> r \<longrightarrow> Y1 ! r = Y ! r"
      "\<forall>t<n. Y1 ! (a + t) = put_row [0..<p] (?Rm ! t) (Y ! (a + t))"
  proof -
    have aY: "a + n \<le> length Y" using R by simp
    have lR: "length ?Rm = n" by simp
    from assign_block_range [OF lR rRm aY] show ?thesis using that by blast
  qed
  have Y1row: "Y1 ! (a + t) = data ! (nat (s + k) + t)" if "t < n" for t
  proof -
    have "nat (s + k) + t < length data" using that n e s(2) k by linarith
    then have "length (?Rm ! t) = p" using that by (simp add: drow)
    moreover have "length (Y ! (a + t)) = p" using that R by (intro rect_nth [of p Y]) simp_all
    ultimately show ?thesis using Y1(4) that by (simp add: put_row_all)
  qed
  have lags: "list_all (\<lambda>i. int i < k) [0..<nat k]" by (auto simp: list_all_iff)
  obtain X1 where X1: "ar_lag_loop data p k s e (map (\<lambda>t. int (a + t)) [0..<n]) [0..<nat k] X = Inr X1"
      "length X1 = length X"
      "\<forall>r. r < a \<or> a + n \<le> r \<longrightarrow> X1 ! r = X ! r"
      "\<forall>t<n. X1 ! (a + t) = ar_row data p k s t [0..<nat k] (X ! (a + t))"
  proof -
    have le: "s + k \<le> e" using e(1) by simp
    have n2: "n = nat (e - s - k)" using n by (simp add: algebra_simps)
    have aX: "a + n \<le> length X" using R by simp
    from ar_lag_loop_ok [OF rd s(2) e(2) le n2 aX lags] show ?thesis using that by blast
  qed
  have X1ent: "X1 ! (a + t) ! (i * p + c) = data ! nat (s + k - (int i + 1) + int t) ! c"
    if "t < n" "i < nat k" "c < p" for t i c
  proof -
    have len: "length (X ! (a + t)) = p * nat k"
      using that(1) R by (intro rect_nth [of "p * nat k" X]) simp_all
    have "\<forall>i'\<in>set [0..<nat k]. length (data ! nat (s + k - (int i' + 1) + int t)) = p"
    proof
      fix i' assume "i' \<in> set [0..<nat k]"
      then have "i' < nat k" by simp
      then have "nat (s + k - (int i' + 1) + int t) < length data"
        using that(1) n e s(2) by linarith
      then show "length (data ! nat (s + k - (int i' + 1) + int t)) = p" by (rule drow)
    qed
    then have "ar_row data p k s t [0..<nat k] (X ! (a + t)) ! (i * p + c)
        = data ! nat (s + k - (int i + 1) + int t) ! c"
      using that len by (intro ar_row_entry) (simp_all add: block_bound)
    then show ?thesis using X1(4) that(1) by simp
  qed
  have rX1: "rect (p * nat k) X1"
  proof (rule rectI)
    fix r assume r: "r < length X1"
    show "length (X1 ! r) = p * nat k"
    proof (cases "r < a \<or> a + n \<le> r")
      case True
      then have "X1 ! r = X ! r" using X1(3) by blast
      then show ?thesis using X1(2) r R(4) by (simp add: rect_nth)
    next
      case False
      then have "r - a < n" "r = a + (r - a)" by linarith+
      then obtain t where t: "t < n" "r = a + t" by blast
      then have "X1 ! r = ar_row data p k s t [0..<nat k] (X ! r)" using X1(4) by blast
      then show ?thesis using X1(2) r R(4) by (simp add: ar_row_length rect_nth)
    qed
  qed
  have rY1: "rect p Y1"
  proof (rule rectI)
    fix r assume r: "r < length Y1"
    show "length (Y1 ! r) = p"
    proof (cases "r < a \<or> a + n \<le> r")
      case True
      then have "Y1 ! r = Y ! r" using Y1(3) by blast
      then show ?thesis using Y1(2) r R(5) by (simp add: rect_nth)
    next
      case False
      then have "r - a < n" "r = a + (r - a)" by linarith+
      then obtain t where t: "t < n" "r = a + t" by blast
      then have "Y1 ! r = put_row [0..<p] (?Rm ! t) (Y ! r)" using Y1(4) by blast
      then show ?thesis using Y1(2) r R(5) by (simp add: put_row_length rect_nth)
    qed
  qed
  have frame: "\<forall>r. r < a \<or> a + n \<le> r \<longrightarrow> X1 ! r = X ! r \<and> Y1 ! r = Y ! r"
    using X1(3) Y1(3) by blast
  have rows: "\<forall>t<n. Y1 ! (a + t) = data ! (nat (s + k) + t)
             \<and> (\<forall>i<nat k. \<forall>c<p. X1 ! (a + t) ! (i * p + c) = data ! nat (s + k - (int i + 1) + int t) ! c)"
    using Y1row X1ent by blast
  have lens: "length X1 = R" "length Y1 = R" using X1(2) Y1(2) R(2,3) by simp_all
  show ?thesis
    unfolding ind2
    apply (rule exI [of _ ?Rm], rule exI [of _ Y1], rule exI [of _ X1])
    apply (intro conjI)
    apply (rule tr)
    apply (rule Y1(1))
    apply (rule X1(1))
    apply (rule lens(1))
    apply (rule lens(2))
    apply (rule rX1)
    apply (rule rY1)
    apply (rule frame)
    apply (rule rows)
    done
qed

lemma ind_2_ends:
  assumes "int j * k \<le> s" "s + k < e"
  shows "map (\<lambda>t. t - int j * k) (arange s (e - k)) \<noteq> []"
    and "hd (map (\<lambda>t. t - int j * k) (arange s (e - k))) = s - int j * k"
    and "last (map (\<lambda>t. t - int j * k) (arange s (e - k))) + 1 = e - k - int j * k"
proof -
  have ne: "arange s (e - k) \<noteq> []" using assms(2) by (simp add: arange_def)
  then show "map (\<lambda>t. t - int j * k) (arange s (e - k)) \<noteq> []" by simp
  have "hd (arange s (e - k)) = s" using assms(2) by (simp add: arange_def upto.simps)
  then show "hd (map (\<lambda>t. t - int j * k) (arange s (e - k))) = s - int j * k"
    using ne by (simp add: hd_map)
  have "[s..e - k - 1] = [s..e - k - 1 - 1] @ [e - k - 1]"
    using assms(2) by (intro upto_rec2) simp
  then have "last (arange s (e - k)) = e - k - 1"
    by (simp add: arange_def)
  then show "last (map (\<lambda>t. t - int j * k) (arange s (e - k))) + 1 = e - k - int j * k"
    using ne by (simp add: last_map)
qed

lemma ar_segment_loop_ok:
  assumes k: "1 \<le> k" and rd: "rect p data"
  shows "valid_segments lo (int (length data)) k segs \<Longrightarrow> int j * k \<le> lo \<Longrightarrow>
         length X = R \<Longrightarrow> length Y = R \<Longrightarrow> rect (p * nat k) X \<Longrightarrow> rect p Y \<Longrightarrow>
         int R = int (length data) - int (j + length segs) * k \<Longrightarrow> length inew = j + length segs \<Longrightarrow>
     \<exists>X' Y' inew'. ar_segment_loop data p k j segs X Y inew = Inr (X', Y', inew')
        \<and> length X' = R \<and> length Y' = R \<and> rect (p * nat k) X' \<and> rect p Y'
        \<and> length inew' = length inew
        \<and> (\<forall>r < nat (lo - int j * k). X' ! r = X ! r \<and> Y' ! r = Y ! r)
        \<and> (\<forall>q<j. inew' ! q = inew ! q)
        \<and> (\<forall>m<length segs. ar_segment_post data p k X' Y' inew' (j + m) (segs ! m))"
proof (induction segs arbitrary: lo j X Y inew)
  case Nil
  then show ?case by simp
next
  case (Cons se segs)
  let ?s = "fst se" and ?e = "snd se"
  let ?T = "int (length data)"
  let ?ind2 = "map (\<lambda>t. t - int j * k) (arange ?s (?e - k))"
  define a where "a = nat (?s - int j * k)"
  define n where "n = nat (?e - k - ?s)"
  have los: "lo \<le> ?s" and se: "?s + k < ?e" and vs: "valid_segments ?e ?T k segs"
    using Cons.prems(1) by simp_all
  have jk0: "0 \<le> int j * k" using k by simp
  have js: "int j * k \<le> ?s" using Cons.prems(2) los by simp
  have s0: "0 \<le> ?s" using js jk0 by simp
  have bound: "?e + int (length segs) * k \<le> ?T"
    using valid_segments_bound [OF vs] k by simp
  have lk0: "0 \<le> int (length segs) * k" using k by simp
  have eT: "?e \<le> ?T" using bound lk0 by simp
  have Req: "int R = ?T - (int j * k + k + int (length segs) * k)"
    using Cons.prems(7) by (simp add: algebra_simps)
  have an: "int a + int n = ?e - k - int j * k" using js se by (simp add: a_def n_def)
  have aR: "a + n \<le> R" using an Req bound by linarith
  obtain Rm Y1 X1 where st:
      "take_rows data (arange (?s + k) ?e) = Inr Rm"
      "assign_block Y ?ind2 [0..<p] Rm = Inr Y1"
      "ar_lag_loop data p k ?s ?e ?ind2 [0..<nat k] X = Inr X1"
      "length X1 = R" "length Y1 = R" "rect (p * nat k) X1" "rect p Y1"
      "\<forall>r. r < a \<or> a + n \<le> r \<longrightarrow> X1 ! r = X ! r \<and> Y1 ! r = Y ! r"
      "\<forall>t<n. Y1 ! (a + t) = data ! (nat (?s + k) + t)
             \<and> (\<forall>i<nat k. \<forall>c<p. X1 ! (a + t) ! (i * p + c) = data ! nat (?s + k - (int i + 1) + int t) ! c)"
    using ar_segment_step [OF k rd js s0 se eT a_def n_def aR Cons.prems(3,4,5,6)] by blast
  define inew1 where "inew1 = inew[j := (?s - int j * k, ?e - k - int j * k)]"
  have unf: "ar_segment_loop data p k j (se # segs) X Y inew
      = ar_segment_loop data p k (Suc j) segs X1 Y1 inew1"
    using st(1,2,3) ind_2_ends [OF js se] by (simp add: inew1_def Let_def)
  have jk1: "int (Suc j) * k \<le> ?e" using js se by (simp add: algebra_simps)
  have R1: "int R = ?T - int (Suc j + length segs) * k"
    using Cons.prems(7) by simp
  have li1: "length inew1 = Suc j + length segs" using Cons.prems(8) by (simp add: inew1_def)
  obtain X' Y' inew' where res:
      "ar_segment_loop data p k (Suc j) segs X1 Y1 inew1 = Inr (X', Y', inew')"
      "length X' = R" "length Y' = R" "rect (p * nat k) X'" "rect p Y'"
      "length inew' = length inew1"
      "\<forall>r < nat (?e - int (Suc j) * k). X' ! r = X1 ! r \<and> Y' ! r = Y1 ! r"
      "\<forall>q<Suc j. inew' ! q = inew1 ! q"
      "\<forall>m<length segs. ar_segment_post data p k X' Y' inew' (Suc j + m) (segs ! m)"
    using Cons.IH [OF vs jk1 st(4,5,6,7) R1 li1] by blast
  have ane: "a + n = nat (?e - int (Suc j) * k)" using an by (simp add: algebra_simps)
  have alo: "nat (lo - int j * k) \<le> a" using los by (simp add: a_def)
  have frame: "\<forall>r < nat (lo - int j * k). X' ! r = X ! r \<and> Y' ! r = Y ! r"
  proof (intro allI impI)
    fix r assume "r < nat (lo - int j * k)"
    then have ra: "r < a" using alo by simp
    then have "r < nat (?e - int (Suc j) * k)" using ane by linarith
    then have "X' ! r = X1 ! r \<and> Y' ! r = Y1 ! r" using res(7) by blast
    moreover have "X1 ! r = X ! r \<and> Y1 ! r = Y ! r" using st(8) ra by blast
    ultimately show "X' ! r = X ! r \<and> Y' ! r = Y ! r" by simp
  qed
  have old: "\<forall>q<j. inew' ! q = inew ! q"
  proof (intro allI impI)
    fix q assume q: "q < j"
    then have "inew' ! q = inew1 ! q" using res(8) by simp
    then show "inew' ! q = inew ! q" using q by (simp add: inew1_def)
  qed
  have head: "ar_segment_post data p k X' Y' inew' j se"
  proof -
    have "inew' ! j = inew1 ! j" using res(8) by simp
    then have i: "inew' ! j = (?s - int j * k, ?e - k - int j * k)"
      using Cons.prems(8) by (simp add: inew1_def)
    have rows: "Y' ! (a + t) = data ! (nat (?s + k) + t)
       \<and> (\<forall>i<nat k. \<forall>c<p. X' ! (a + t) ! (i * p + c) = data ! nat (?s + k - (int i + 1) + int t) ! c)"
      if "t < n" for t
    proof -
      have "a + t < nat (?e - int (Suc j) * k)" using that ane by linarith
      then have "X' ! (a + t) = X1 ! (a + t) \<and> Y' ! (a + t) = Y1 ! (a + t)" using res(7) by blast
      then show ?thesis using st(9) that by simp
    qed
    have n2: "nat (?e - ?s - k) = n" by (simp add: n_def algebra_simps)
    show ?thesis
      unfolding ar_segment_post_def n2 a_def [symmetric] using i rows by blast
  qed
  have posts: "\<forall>m<length (se # segs). ar_segment_post data p k X' Y' inew' (j + m) ((se # segs) ! m)"
  proof (intro allI impI)
    fix m assume m: "m < length (se # segs)"
    show "ar_segment_post data p k X' Y' inew' (j + m) ((se # segs) ! m)"
    proof (cases m)
      case 0
      then show ?thesis using head by simp
    next
      case (Suc m')
      then have "m' < length segs" using m by simp
      then have "ar_segment_post data p k X' Y' inew' (Suc j + m') (segs ! m')" using res(9) by blast
      then show ?thesis using Suc by simp
    qed
  qed
  have li: "length inew' = length inew" using res(6) by (simp add: inew1_def)
  show ?case
    unfolding unf
    apply (rule exI [of _ X'], rule exI [of _ Y'], rule exI [of _ inew'])
    apply (intro conjI)
    apply (rule res(1))
    apply (rule res(2))
    apply (rule res(3))
    apply (rule res(4))
    apply (rule res(5))
    apply (rule li)
    apply (rule frame)
    apply (rule old)
    apply (rule posts)
    done
qed

lemma ncols_rect: "rect q M \<Longrightarrow> M \<noteq> [] \<Longrightarrow> ncols M = q"
  by (cases M) (simp_all add: ncols_def rect_def)

lemma center_cols_length: "length (center_cols M) = length M"
  by (simp add: center_cols_def sub_rowvec_def)

lemma center_cols_rect: "rect q M \<Longrightarrow> rect q (center_cols M)"
proof (cases "M = []")
  case True
  then show ?thesis by (simp add: center_cols_def sub_rowvec_def rect_def)
next
  case False
  assume r: "rect q M"
  then have "ncols M = q" using False by (rule ncols_rect)
  then have "length (col_means M) = q" by (simp add: col_means_def)
  then show ?thesis using r by (simp add: center_cols_def sub_rowvec_def rect_def list_all_iff)
qed

lemma center_cols_entry:
  assumes "rect q M" "r < length M" "c < q"
  shows "center_cols M ! r ! c = fl_sub (M ! r ! c) (fl_mean (column M c))"
proof -
  have ne: "M \<noteq> []" using assms(2) by auto
  have nc: "ncols M = q" using assms(1) ne by (rule ncols_rect)
  have lr: "length (M ! r) = q" using assms(1,2) by (rule rect_nth)
  show ?thesis using assms(2,3) nc lr by (simp add: center_cols_def sub_rowvec_def col_means_def)
qed

lemma ar_embed_ok:
  assumes k: "1 \<le> k" and rd: "rect p data" and nc: "ncols data = p"
    and vs: "valid_segments 0 (int (length data)) k indices"
  shows "\<exists>X Y. ar_embed data indices k = Inr (X, Y, trimmed_indices k indices)
      \<and> length X = length data - length indices * nat k \<and> rect (p * nat k) X
      \<and> length Y = length data - length indices * nat k \<and> rect p Y
      \<and> (\<forall>m<length indices. \<forall>t<nat (snd (indices ! m) - fst (indices ! m) - k).
            Y ! (nat (fst (indices ! m) - int m * k) + t) = data ! (nat (fst (indices ! m) + k) + t)
            \<and> (\<forall>i<nat k. \<forall>c<p.
                  X ! (nat (fst (indices ! m) - int m * k) + t) ! (i * p + c)
                    = data ! nat (fst (indices ! m) + k - (int i + 1) + int t) ! c))"
proof -
  let ?T = "int (length data)" and ?N = "length indices"
  define R where "R = length data - ?N * nat k"
  have bound: "int ?N * k \<le> ?T" using valid_segments_bound [OF vs] k by simp
  have nk: "int (nat k) = k" using k by simp
  have "int (?N * nat k) \<le> int (length data)" using bound nk by simp
  then have le: "?N * nat k \<le> length data" by linarith
  have Rint: "int R = ?T - int (0 + ?N) * k" using le nk by (simp add: R_def of_nat_diff)
  have RR: "nat (?T - int ?N * k) = R" using Rint by simp
  let ?X0 = "replicate R (replicate (p * nat k) (Fin 0))"
  let ?Y0 = "replicate R (replicate p (Fin 0))"
  have pk: "nat (int p * k) = p * nat k" using k by (simp add: nat_mult_distrib)
  have pk0: "\<not> int p * k < 0" using k by (simp add: not_less)
  have z1: "np_zeros (?T - int ?N * k) (int p * k) = Inr ?X0"
    using bound pk0 RR pk by (simp add: np_zeros_def)
  have z2: "np_zeros (?T - int ?N * k) (int p) = Inr ?Y0"
    using bound RR by (simp add: np_zeros_def)
  have unf: "ar_embed data indices k = ar_segment_loop data p k 0 indices ?X0 ?Y0 (replicate ?N (0, 0))"
    using z1 z2 nc by (simp add: ar_embed_def Let_def)
  have rX: "rect (p * nat k) ?X0" by (simp add: rect_def list_all_iff)
  have rY: "rect p ?Y0" by (simp add: rect_def list_all_iff)
  have j0: "int 0 * k \<le> 0" by simp
  obtain X Y inew where res:
      "ar_segment_loop data p k 0 indices ?X0 ?Y0 (replicate ?N (0, 0)) = Inr (X, Y, inew)"
      "length X = R" "length Y = R" "rect (p * nat k) X" "rect p Y"
      "length inew = length (replicate ?N (0::int, 0::int))"
      "\<forall>m<length indices. ar_segment_post data p k X Y inew (0 + m) (indices ! m)"
    using ar_segment_loop_ok [OF k rd vs j0 _ _ rX rY Rint, of "replicate ?N (0, 0)"] by auto
  have inew: "inew = trimmed_indices k indices"
  proof (rule nth_equalityI)
    show "length inew = length (trimmed_indices k indices)" using res(6) by (simp add: trimmed_indices_def)
    fix m assume "m < length inew"
    then have m: "m < length indices" using res(6) by simp
    then have "ar_segment_post data p k X Y inew (0 + m) (indices ! m)" using res(7) by blast
    then show "inew ! m = trimmed_indices k indices ! m"
      using m by (simp add: ar_segment_post_def trimmed_indices_def)
  qed
  have rows: "\<forall>m<length indices. \<forall>t<nat (snd (indices ! m) - fst (indices ! m) - k).
            Y ! (nat (fst (indices ! m) - int m * k) + t) = data ! (nat (fst (indices ! m) + k) + t)
            \<and> (\<forall>i<nat k. \<forall>c<p.
                  X ! (nat (fst (indices ! m) - int m * k) + t) ! (i * p + c)
                    = data ! nat (fst (indices ! m) + k - (int i + 1) + int t) ! c)"
  proof (intro allI impI)
    fix m t assume m: "m < length indices" and t: "t < nat (snd (indices ! m) - fst (indices ! m) - k)"
    have "ar_segment_post data p k X Y inew (0 + m) (indices ! m)" using res(7) m by blast
    then show "Y ! (nat (fst (indices ! m) - int m * k) + t) = data ! (nat (fst (indices ! m) + k) + t)
            \<and> (\<forall>i<nat k. \<forall>c<p.
                  X ! (nat (fst (indices ! m) - int m * k) + t) ! (i * p + c)
                    = data ! nat (fst (indices ! m) + k - (int i + 1) + int t) ! c)"
      using t by (simp add: ar_segment_post_def)
  qed
  show ?thesis
    unfolding unf R_def [symmetric]
    apply (rule exI [of _ X], rule exI [of _ Y])
    apply (intro conjI)
    apply (simp add: res(1) inew)
    apply (rule res(2))
    apply (rule res(4))
    apply (rule res(3))
    apply (rule res(5))
    apply (rule rows)
    done
qed

lemma trimmed_indices_nth:
  "m < length indices \<Longrightarrow>
   trimmed_indices k indices ! m = (fst (indices ! m) - int m * k, snd (indices ! m) - k - int m * k)"
  by (simp add: trimmed_indices_def)

text \<open>
  Claim C5. For an order \<open>k \<ge> 1\<close>, data with \<open>p\<close> channels, a SegmentIndex whose segments
  are ordered, disjoint, inside the data and each longer than \<open>k\<close>, and no connectivity,
  the autoregressive builder raises nothing and returns (centered when asked) matrices
  \<open>X\<close> and \<open>Y\<close> with \<open>T - N * k\<close> rows, \<open>p * k\<close> and \<open>p\<close> columns. Segment \<open>m\<close> of length
  \<open>Ti\<close> yields \<open>Ti - k\<close> rows; at its row \<open>t\<close> the target is the source sample
  \<open>start + k + t\<close>, and column \<open>i * p + c\<close> of the predictors (lag block \<open>i\<close>, counted
  from 0, channel \<open>c\<close>: lag-major order) is channel \<open>c\<close> of the source sample \<open>i + 1\<close>
  steps earlier. On 100 samples of 3 channels with SegmentIndex \<open>[[0,50],[50,100]]\<close> and
  order 2 this gives 96 rows, 6 and 3 columns, and the SegmentIndex \<open>[[0,48],[48,96]]\<close>.
  Centering subtracts the column mean and keeps the shape (\<open>center_cols_entry\<close>).
\<close>

theorem autoregressive_layout:
  assumes "1 \<le> k" and "rect p data" and "ncols data = p"
    and "valid_segments 0 (int (length data)) k indices"
  shows "\<exists>X Y.
      build_data_autoregressive linv data indices k None center_data
        = Inr \<lparr>ar_X = (if center_data then center_cols X else X),
               ar_Y = (if center_data then center_cols Y else Y),
               ar_indices = trimmed_indices k indices,
               ar_connectivity_new = None, ar_warnings = []\<rparr>
      \<and> length X = length data - length indices * nat k \<and> rect (p * nat k) X
      \<and> length (center_cols X) = length X \<and> rect (p * nat k) (center_cols X)
      \<and> length Y = length data - length indices * nat k \<and> rect p Y
      \<and> length (center_cols Y) = length Y \<and> rect p (center_cols Y)
      \<and> (\<forall>m<length indices.
           snd (trimmed_indices k indices ! m) - fst (trimmed_indices k indices ! m)
             = snd (indices ! m) - fst (indices ! m) - k
           \<and> (\<forall>t<nat (snd (indices ! m) - fst (indices ! m) - k).
                 Y ! (nat (fst (trimmed_indices k indices ! m)) + t)
                   = data ! (nat (fst (indices ! m) + k) + t)
               \<and> (\<forall>i<nat k. \<forall>c<p.
                     X ! (nat (fst (trimmed_indices k indices ! m)) + t) ! (i * p + c)
                       = data ! nat (fst (indices ! m) + k + int t - (int i + 1)) ! c)))
      \<and> (length data = 100 \<and> p = 3 \<and> k = 2 \<and> indices = [(0, 50), (50, 100)] \<longrightarrow>
           length X = 96 \<and> rect 6 X \<and> length Y = 96 \<and> rect 3 Y
           \<and> trimmed_indices k indices = [(0, 48), (48, 96)])"
proof -
  obtain X Y where e:
      "ar_embed data indices k = Inr (X, Y, trimmed_indices k indices)"
      "length X = length data - length indices * nat k" "rect (p * nat k) X"
      "length Y = length data - length indices * nat k" "rect p Y"
      "\<forall>m<length indices. \<forall>t<nat (snd (indices ! m) - fst (indices ! m) - k).
            Y ! (nat (fst (indices ! m) - int m * k) + t) = data ! (nat (fst (indices ! m) + k) + t)
            \<and> (\<forall>i<nat k. \<forall>c<p.
                  X ! (nat (fst (indices ! m) - int m * k) + t) ! (i * p + c)
                    = data ! nat (fst (indices ! m) + k - (int i + 1) + int t) ! c)"
    using ar_embed_ok [OF assms] by blast
  have k0: "k \<noteq> 0" using assms(1) by simp
  have run: "build_data_autoregressive linv data indices k None center_data
        = Inr \<lparr>ar_X = (if center_data then center_cols X else X),
               ar_Y = (if center_data then center_cols Y else Y),
               ar_indices = trimmed_indices k indices,
               ar_connectivity_new = None, ar_warnings = []\<rparr>"
    using e(1) k0 by (simp add: build_data_autoregressive_def)
  have rows: "\<forall>m<length indices.
           snd (trimmed_indices k indices ! m) - fst (trimmed_indices k indices ! m)
             = snd (indices ! m) - fst (indices ! m) - k
           \<and> (\<forall>t<nat (snd (indices ! m) - fst (indices ! m) - k).
                 Y ! (nat (fst (trimmed_indices k indices ! m)) + t)
                   = data ! (nat (fst (indices ! m) + k) + t)
               \<and> (\<forall>i<nat k. \<forall>c<p.
                     X ! (nat (fst (trimmed_indices k indices ! m)) + t) ! (i * p + c)
                       = data ! nat (fst (indices ! m) + k + int t - (int i + 1)) ! c))"
  proof (intro allI impI conjI)
    fix m assume m: "m < length indices"
    show "snd (trimmed_indices k indices ! m) - fst (trimmed_indices k indices ! m)
             = snd (indices ! m) - fst (indices ! m) - k"
      using m by (simp add: trimmed_indices_nth)
    fix t assume t: "t < nat (snd (indices ! m) - fst (indices ! m) - k)"
    have mt: "Y ! (nat (fst (indices ! m) - int m * k) + t) = data ! (nat (fst (indices ! m) + k) + t)
            \<and> (\<forall>i<nat k. \<forall>c<p.
                  X ! (nat (fst (indices ! m) - int m * k) + t) ! (i * p + c)
                    = data ! nat (fst (indices ! m) + k - (int i + 1) + int t) ! c)"
      using e(6) m t by blast
    show "Y ! (nat (fst (trimmed_indices k indices ! m)) + t) = data ! (nat (fst (indices ! m) + k) + t)"
      using mt m by (simp add: trimmed_indices_nth)
    fix i c assume ic: "i < nat k" "c < p"
    have eq: "fst (indices ! m) + k + int t - (int i + 1) = fst (indices ! m) + k - (int i + 1) + int t"
      by simp
    show "X ! (nat (fst (trimmed_indices k indices ! m)) + t) ! (i * p + c)
                       = data ! nat (fst (indices ! m) + k + int t - (int i + 1)) ! c"
      unfolding eq using mt m ic by (simp add: trimmed_indices_nth)
  qed
  have conc: "length data = 100 \<and> p = 3 \<and> k = 2 \<and> indices = [(0, 50), (50, 100)] \<longrightarrow>
           length X = 96 \<and> rect 6 X \<and> length Y = 96 \<and> rect 3 Y
           \<and> trimmed_indices k indices = [(0, 48), (48, 96)]"
  proof (intro impI)
    assume c: "length data = 100 \<and> p = 3 \<and> k = 2 \<and> indices = [(0, 50), (50, 100)]"
    have u: "[0..<2] = [0, Suc 0]" by (simp add: upt_rec)
    have "trimmed_indices 2 [(0, 50), (50, 100)] = [(0, 48), (48, 96)]"
      by (simp add: trimmed_indices_def u)
    then show "length X = 96 \<and> rect 6 X \<and> length Y = 96 \<and> rect 3 Y
           \<and> trimmed_indices k indices = [(0, 48), (48, 96)]"
      using c e(2,3,4,5) by simp
  qed
  show ?thesis
    apply (rule exI [of _ X], rule exI [of _ Y])
    apply (intro conjI)
    apply (rule run)
    apply (rule e(2))
    apply (rule e(3))
    apply (rule center_cols_length)
    apply (rule center_cols_rect [OF e(3)])
    apply (rule e(4))
    apply (rule e(5))
    apply (rule center_cols_length)
    apply (rule center_cols_rect [OF e(5)])
    apply (rule rows)
    apply (rule conc)
    done
qed

text \<open>The scenario of the claim on a concrete array of 100 samples and 3 channels.\<close>

theorem autoregressive_layout_witness:
  "\<exists>X Y.
      build_data_autoregressive Inr (replicate 100 [Fin 1, Fin 2, Fin 3]) [(0, 50), (50, 100)] 2 None True
        = Inr \<lparr>ar_X = center_cols X, ar_Y = center_cols Y, ar_indices = [(0, 48), (48, 96)],
               ar_connectivity_new = None, ar_warnings = []\<rparr>
      \<and> length (center_cols X) = 96 \<and> rect 6 (center_cols X)
      \<and> length (center_cols Y) = 96 \<and> rect 3 (center_cols Y)"
proof -
  let ?data = "replicate 100 [Fin 1, Fin 2, Fin 3]"
  have h1: "(1::int) \<le> 2" by simp
  have h2: "rect 3 ?data" by (simp add: rect_def list_all_iff)
  have "?data = [Fin 1, Fin 2, Fin 3] # replicate 99 [Fin 1, Fin 2, Fin 3]"
    by (simp add: replicate_Suc [symmetric] del: replicate_Suc)
  then have h3: "ncols ?data = 3" by (simp add: ncols_def)
  have h4: "valid_segments 0 (int (length ?data)) 2 [(0, 50), (50, 100)]" by simp
  from autoregressive_layout [OF h1 h2 h3 h4, of Inr True]
  obtain X Y where
    a: "build_data_autoregressive Inr ?data [(0, 50), (50, 100)] 2 None True
        = Inr \<lparr>ar_X = (if True then center_cols X else X),
               ar_Y = (if True then center_cols Y else Y),
               ar_indices = trimmed_indices 2 [(0, 50), (50, 100)],
               ar_connectivity_new = None, ar_warnings = []\<rparr>"
    and b: "length (center_cols X) = length X" "rect (3 * nat 2) (center_cols X)"
      "length (center_cols Y) = length Y" "rect 3 (center_cols Y)"
    and c: "length ?data = 100 \<and> (3::nat) = 3 \<and> (2::int) = 2
          \<and> [(0, 50), (50, 100)] = [(0::int, 50::int), (50, 100)] \<longrightarrow>
           length X = 96 \<and> rect 6 X \<and> length Y = 96 \<and> rect 3 Y
           \<and> trimmed_indices 2 [(0, 50), (50, 100)] = [(0, 48), (48, 96)]"
    by blast
  have n: "3 * nat 2 = (6::nat)" by simp
  show ?thesis
    apply (rule exI [of _ X], rule exI [of _ Y])
    using a b c unfolding n by simp
qed

section \<open>Order zero\<close>

text \<open>
  Claim C6. With \<^verbatim>\<open>autoregressive_order = 0\<close> the builder raises nothing, whatever the
  data, the SegmentIndex, the connectivity and the centering flag are: it returns the
  data as Y, an empty X, the SegmentIndex and the connectivity as they were given, and
  one warning.
\<close>

theorem order_zero_is_noop:
  "build_data_autoregressive linv data indices 0 connectivity center_data =
     Inr \<lparr>ar_X = [], ar_Y = data, ar_indices = indices, ar_connectivity_new = connectivity,
          ar_warnings = [''autoregressive_order is 0 so nothing to be done'']\<rparr>"
  by (simp add: build_data_autoregressive_def)

section \<open>The delay embedding\<close>

lemma tde_slice:
  assumes s: "0 \<le> s" and e: "e \<le> int (length data)"
    and mn: "mn \<le> 0" and mx: "0 < mx" and w: "s + (mx - mn) < e"
    and seg: "seg = map (\<lambda>t. data ! (nat s + t)) [0..<nat (e - s)]"
  shows "py_slice (np_roll l seg) (- mn) (- mx)
       = map (\<lambda>t. data ! (nat s + nat ((int t - mn - l) mod (e - s)))) [0..<nat (e - s - (mx - mn))]"
proof -
  let ?Ti = "nat (e - s)"
  let ?n = "nat (e - s - (mx - mn))"
  let ?R = "np_roll l seg"
  have Ti: "int ?Ti = e - s" "0 < e - s" using w mn mx by simp_all
  have lseg: "length seg = ?Ti" using seg by simp
  have lR: "length ?R = ?Ti" by (simp add: np_roll_def lseg)
  have lo: "min (- mn) (int ?Ti) = - mn" using w mn mx by simp
  have hi: "max (- mx + int ?Ti) 0 = e - s - mx" using w mn mx by simp
  have sl: "py_slice ?R (- mn) (- mx) = take ?n (drop (nat (- mn)) ?R)"
  proof -
    have eq: "nat (e - s - mx + mn) = nat (e - s - (mx - mn))" by (rule arg_cong [of _ _ nat]) linarith
    show ?thesis using mn mx lo hi by (simp add: py_slice_def lR Let_def eq del: Ti)
  qed
  show ?thesis
  proof (rule nth_equalityI)
    have "nat (- mn) + ?n \<le> ?Ti" using w mn mx by linarith
    then show len: "length (py_slice ?R (- mn) (- mx))
        = length (map (\<lambda>t. data ! (nat s + nat ((int t - mn - l) mod (e - s)))) [0..<?n])"
      unfolding sl by (simp add: lR)
    fix t assume "t < length (py_slice ?R (- mn) (- mx))"
    then have t: "t < ?n" using len by simp
    have r: "nat (- mn) + t < ?Ti" using t w mn mx by linarith
    have "py_slice ?R (- mn) (- mx) ! t = ?R ! (nat (- mn) + t)"
      unfolding sl using t r by (simp add: lR)
    also have "\<dots> = seg ! nat ((int (nat (- mn) + t) - l) mod int ?Ti)"
      using r by (simp add: np_roll_def lseg del: Ti)
    also have "int (nat (- mn) + t) - l = int t - mn - l" using mn by simp
    also have "nat ((int t - mn - l) mod int ?Ti) < ?Ti"
      using Ti by (simp add: nat_less_iff)
    then have "seg ! nat ((int t - mn - l) mod int ?Ti) = data ! (nat s + nat ((int t - mn - l) mod int ?Ti))"
      unfolding seg by simp
    finally show "py_slice ?R (- mn) (- mx) ! t
        = map (\<lambda>t. data ! (nat s + nat ((int t - mn - l) mod (e - s)))) [0..<?n] ! t"
      using t Ti by simp
  qed
qed

lemma tde_row_length: "length (tde_row data p lags s e t js row) = length row"
  unfolding tde_row_def by (induction js arbitrary: row) (simp_all add: put_row_length)

lemma stride_mod: "i < L \<Longrightarrow> (i + c * L) mod L = (i::nat)"
  by simp

lemma stride_notin:
  assumes "i < L" "i' < L" "i \<noteq> i'"
  shows "i + c * L \<notin> set (map (\<lambda>c'. i' + c' * L) [0..<p])"
proof
  assume "i + c * L \<in> set (map (\<lambda>c'. i' + c' * L) [0..<p])"
  then have "i + c * L \<in> (\<lambda>c'. i' + c' * L) ` set [0..<p]" unfolding set_map .
  then obtain c' where "i + c * L = i' + c' * L" by blast
  then have "(i + c * L) mod L = (i' + c' * L) mod L" by simp
  then have "i = i'" using assms(1,2) by (simp only: stride_mod)
  then show False using assms(3) by simp
qed

lemma stride_distinct: "0 < L \<Longrightarrow> distinct (map (\<lambda>c. i + c * (L::nat)) [0..<p])"
  by (simp add: distinct_map inj_on_def)

lemma stride_bound: "i < L \<Longrightarrow> c < p \<Longrightarrow> i + c * L < p * (L::nat)"
proof -
  assume a: "i < L" "c < p"
  then have "Suc c * L \<le> p * L" by (intro mult_le_mono1) simp
  then show ?thesis using a by simp
qed

lemma tde_row_untouched:
  assumes "i \<notin> set js" "i < L" "\<forall>i'\<in>set js. i' < L" "L = length lags"
  shows "tde_row data p lags s e t js row ! (i + c * L) = row ! (i + c * L)"
  using assms(1,3)
proof (induction js arbitrary: row)
  case Nil
  then show ?case by (simp add: tde_row_def)
next
  case (Cons i' rest)
  have unf: "tde_row data p lags s e t (i' # rest) row
      = tde_row data p lags s e t rest (put_row (map (\<lambda>c. i' + c * L) [0..<p]) (tde_src data lags s e i' t) row)"
    by (simp add: tde_row_def assms(4))
  have "i + c * L \<notin> set (map (\<lambda>c'. i' + c' * L) [0..<p])"
    using Cons.prems assms(2) by (intro stride_notin) auto
  then show ?case using Cons unf by (simp add: put_row_other)
qed

lemma tde_row_entry:
  assumes "distinct js" "i \<in> set js" "c < p" "i + c * L < length row" "L = length lags"
    and "\<forall>i'\<in>set js. i' < L"
    and "\<forall>i'\<in>set js. length (tde_src data lags s e i' t) = p"
  shows "tde_row data p lags s e t js row ! (i + c * L) = tde_src data lags s e i t ! c"
  using assms(1,2,4,6,7)
proof (induction js arbitrary: row)
  case Nil
  then show ?case by simp
next
  case (Cons i' rest)
  let ?cols = "map (\<lambda>c. i' + c * L) [0..<p]"
  let ?v = "tde_src data lags s e i' t"
  let ?row1 = "put_row ?cols ?v row"
  have unf: "tde_row data p lags s e t (i' # rest) row = tde_row data p lags s e t rest ?row1"
    by (simp add: tde_row_def assms(5))
  show ?case
  proof (cases "i \<in> set rest")
    case True
    then show ?thesis using Cons unf by (simp add: put_row_length)
  next
    case False
    then have ii: "i = i'" using Cons.prems(2) by simp
    have iL: "i < L" using Cons.prems(2,4) by auto
    have "\<forall>i'\<in>set rest. i' < L" using Cons.prems(4) by simp
    then have "tde_row data p lags s e t rest ?row1 ! (i + c * L) = ?row1 ! (i + c * L)"
      using False iL assms(5) by (intro tde_row_untouched) auto
    moreover have "?row1 ! (?cols ! c) = ?v ! c"
    proof (rule put_row_hit)
      show "distinct ?cols" using iL ii by (intro stride_distinct) simp
      show "length ?v = length ?cols" using Cons.prems(5) by simp
      show "c < length ?cols" using assms(3) by simp
      show "?cols ! c < length row" using Cons.prems(3) ii assms(3) by simp
    qed
    ultimately show ?thesis using unf ii assms(3) by simp
  qed
qed

lemma tde_lag_loop_ok:
  assumes rd: "rect p data" and s: "0 \<le> s" and e: "e \<le> int (length data)"
    and mn: "np_min lags \<le> 0" and mx: "0 < np_max_int lags"
    and w: "s + (np_max_int lags - np_min lags) < e"
    and n: "n = nat (e - s - (np_max_int lags - np_min lags))"
  shows "a + n \<le> length X \<Longrightarrow>
     \<exists>X'. tde_lag_loop data p lags (arange s e) (map (\<lambda>t. int (a + t)) [0..<n]) js X = Inr X'
          \<and> length X' = length X
          \<and> (\<forall>r. r < a \<or> a + n \<le> r \<longrightarrow> X' ! r = X ! r)
          \<and> (\<forall>t<n. X' ! (a + t) = tde_row data p lags s e t js (X ! (a + t)))"
proof (induction js arbitrary: X)
  case Nil
  then show ?case by (simp add: tde_row_def)
next
  case (Cons i rest)
  let ?seg = "map (\<lambda>t. data ! (nat s + t)) [0..<nat (e - s)]"
  let ?cols = "map (\<lambda>c. i + c * length lags) [0..<p]"
  let ?V = "map (\<lambda>t. tde_src data lags s e i t) [0..<n]"
  have tr: "take_rows data (arange s e) = Inr ?seg"
    using take_rows_range [OF s e] by simp
  have sl: "py_slice (np_roll (lags ! i) ?seg) (- np_min lags) (- np_max_int lags) = ?V"
    using tde_slice [OF s e mn mx w refl, of "lags ! i"] n by (simp add: tde_src_def)
  have rv: "rect (length ?cols) ?V"
  proof (rule rectI)
    fix r assume "r < length ?V"
    then have r: "r < n" by simp
    have pos: "0 < e - s" using w mn mx by simp
    have "(int r - np_min lags - lags ! i) mod (e - s) < e - s" using pos by simp
    moreover have "0 \<le> (int r - np_min lags - lags ! i) mod (e - s)" using pos by simp
    ultimately have "nat s + nat ((int r - np_min lags - lags ! i) mod (e - s)) < length data"
      using s e by linarith
    then show "length (?V ! r) = length ?cols" using r rd by (simp add: tde_src_def rect_nth)
  qed
  have lV: "length ?V = n" by simp
  obtain X1 where X1: "assign_block X (map (\<lambda>t. int (a + t)) [0..<n]) ?cols ?V = Inr X1"
      "length X1 = length X"
      "\<forall>r. r < a \<or> a + n \<le> r \<longrightarrow> X1 ! r = X ! r"
      "\<forall>t<n. X1 ! (a + t) = put_row ?cols (?V ! t) (X ! (a + t))"
    using assign_block_range [OF lV rv Cons.prems] by blast
  have aX1: "a + n \<le> length X1" using Cons.prems X1(2) by simp
  obtain X' where X': "tde_lag_loop data p lags (arange s e) (map (\<lambda>t. int (a + t)) [0..<n]) rest X1 = Inr X'"
      "length X' = length X1"
      "\<forall>r. r < a \<or> a + n \<le> r \<longrightarrow> X' ! r = X1 ! r"
      "\<forall>t<n. X' ! (a + t) = tde_row data p lags s e t rest (X1 ! (a + t))"
    using Cons.IH [OF aX1] by blast
  have step: "tde_lag_loop data p lags (arange s e) (map (\<lambda>t. int (a + t)) [0..<n]) (i # rest) X = Inr X'"
    using tr sl X1(1) X'(1) by (simp add: Let_def)
  have rows: "\<forall>t<n. X' ! (a + t) = tde_row data p lags s e t (i # rest) (X ! (a + t))"
    using X'(4) X1(4) by (simp add: tde_row_def)
  have len: "length X' = length X" using X'(2) X1(2) by simp
  have frame: "\<forall>r. r < a \<or> a + n \<le> r \<longrightarrow> X' ! r = X ! r" using X'(3) X1(3) by simp
  show ?case using step len frame rows by blast
qed

lemma tde_segment_step:
  assumes rd: "rect p data" and mn: "np_min lags \<le> 0" and mx: "0 < np_max_int lags"
    and wdef: "w = np_max_int lags - np_min lags"
    and s: "int j * w \<le> s" "0 \<le> s" and e: "s + w < e" "e \<le> int (length data)"
    and a: "a = nat (s - int j * w)" and n: "n = nat (e - s - w)"
    and R: "a + n \<le> R" "length X = R" "rect (p * length lags) X"
  shows "\<exists>X1. tde_lag_loop data p lags (arange s e) (map (\<lambda>t. t - int j * w) (arange s (e - w)))
                 [0..<length lags] X = Inr X1
      \<and> length X1 = R \<and> rect (p * length lags) X1
      \<and> (\<forall>r. r < a \<or> a + n \<le> r \<longrightarrow> X1 ! r = X ! r)
      \<and> (\<forall>t<n. \<forall>i<length lags. \<forall>c<p.
            X1 ! (a + t) ! (c * length lags + i) = tde_src data lags s e i t ! c)"
proof -
  let ?L = "length lags"
  let ?ind2 = "map (\<lambda>t. t - int j * w) (arange s (e - w))"
  have ind2: "?ind2 = map (\<lambda>t. int (a + t)) [0..<n]"
    using ind_2_range [OF s(1), of e] a n by (simp add: algebra_simps)
  have w': "s + (np_max_int lags - np_min lags) < e" using e(1) wdef by simp
  have n': "n = nat (e - s - (np_max_int lags - np_min lags))" using n wdef by simp
  have aX: "a + n \<le> length X" using R by simp
  obtain X1 where X1:
      "tde_lag_loop data p lags (arange s e) (map (\<lambda>t. int (a + t)) [0..<n]) [0..<?L] X = Inr X1"
      "length X1 = length X"
      "\<forall>r. r < a \<or> a + n \<le> r \<longrightarrow> X1 ! r = X ! r"
      "\<forall>t<n. X1 ! (a + t) = tde_row data p lags s e t [0..<?L] (X ! (a + t))"
    using tde_lag_loop_ok [OF rd s(2) e(2) mn mx w' n' aX] by blast
  have drow: "length (data ! r) = p" if "r < length data" for r
    using rd that by (rule rect_nth)
  have srcl: "length (tde_src data lags s e i t) = p" for i t
  proof -
    have pos: "0 < e - s" using w' mn mx by simp
    have "(int t - np_min lags - lags ! i) mod (e - s) < e - s" using pos by simp
    moreover have "0 \<le> (int t - np_min lags - lags ! i) mod (e - s)" using pos by simp
    ultimately have "nat s + nat ((int t - np_min lags - lags ! i) mod (e - s)) < length data"
      using s(2) e(2) by linarith
    then show ?thesis unfolding tde_src_def by (rule drow)
  qed
  have ent: "X1 ! (a + t) ! (c * ?L + i) = tde_src data lags s e i t ! c"
    if "t < n" "i < ?L" "c < p" for t i c
  proof -
    have len: "length (X ! (a + t)) = p * ?L"
      using that(1) R by (intro rect_nth [of "p * ?L" X]) simp_all
    have ro: "tde_row data p lags s e t [0..<?L] (X ! (a + t)) ! (i + c * ?L) = tde_src data lags s e i t ! c"
      using that len srcl by (intro tde_row_entry) (simp_all add: stride_bound)
    have x1: "X1 ! (a + t) = tde_row data p lags s e t [0..<?L] (X ! (a + t))"
      using X1(4) that(1) by blast
    have cm: "c * ?L + i = i + c * ?L" by simp
    show ?thesis unfolding cm x1 by (rule ro)
  qed
  have rX1: "rect (p * ?L) X1"
  proof (rule rectI)
    fix r assume r: "r < length X1"
    show "length (X1 ! r) = p * ?L"
    proof (cases "r < a \<or> a + n \<le> r")
      case True
      then have "X1 ! r = X ! r" using X1(3) by blast
      then show ?thesis using X1(2) r R(3) by (simp add: rect_nth)
    next
      case False
      then have "r - a < n" "r = a + (r - a)" by linarith+
      then obtain t where t: "t < n" "r = a + t" by blast
      then have "X1 ! r = tde_row data p lags s e t [0..<?L] (X ! r)" using X1(4) by blast
      then show ?thesis using X1(2) r R(3) by (simp add: tde_row_length rect_nth)
    qed
  qed
  have ents: "\<forall>t<n. \<forall>i<?L. \<forall>c<p. X1 ! (a + t) ! (c * ?L + i) = tde_src data lags s e i t ! c"
    using ent by blast
  have len1: "length X1 = R" using X1(2) R(2) by simp
  show ?thesis
    unfolding ind2
    apply (rule exI [of _ X1])
    apply (intro conjI)
    apply (rule X1(1))
    apply (rule len1)
    apply (rule rX1)
    apply (rule X1(3))
    apply (rule ents)
    done
qed

lemma tde_segment_loop_ok:
  assumes rd: "rect p data" and mn: "np_min lags \<le> 0" and mx: "0 < np_max_int lags"
    and wdef: "w = np_max_int lags - np_min lags"
  shows "valid_segments lo (int (length data)) w segs \<Longrightarrow> int j * w \<le> lo \<Longrightarrow>
         length X = R \<Longrightarrow> rect (p * length lags) X \<Longrightarrow>
         int R = int (length data) - int (j + length segs) * w \<Longrightarrow> length inew = j + length segs \<Longrightarrow>
     \<exists>X' inew'. tde_segment_loop data p lags j segs X inew = Inr (X', inew')
        \<and> length X' = R \<and> rect (p * length lags) X'
        \<and> length inew' = length inew
        \<and> (\<forall>r < nat (lo - int j * w). X' ! r = X ! r)
        \<and> (\<forall>q<j. inew' ! q = inew ! q)
        \<and> (\<forall>m<length segs. tde_segment_post data p lags X' inew' (j + m) (segs ! m))"
proof (induction segs arbitrary: lo j X inew)
  case Nil
  then show ?case by simp
next
  case (Cons se segs)
  let ?s = "fst se" and ?e = "snd se"
  let ?T = "int (length data)"
  let ?ind2 = "map (\<lambda>t. t - int j * w) (arange ?s (?e - w))"
  define a where "a = nat (?s - int j * w)"
  define n where "n = nat (?e - ?s - w)"
  have w1: "1 \<le> w" using mn mx wdef by simp
  have los: "lo \<le> ?s" and se: "?s + w < ?e" and vs: "valid_segments ?e ?T w segs"
    using Cons.prems(1) by simp_all
  have jk0: "0 \<le> int j * w" using w1 by simp
  have js: "int j * w \<le> ?s" using Cons.prems(2) los by simp
  have s0: "0 \<le> ?s" using js jk0 by simp
  have bound: "?e + int (length segs) * w \<le> ?T"
    using valid_segments_bound [OF vs] w1 by simp
  have lk0: "0 \<le> int (length segs) * w" using w1 by simp
  have eT: "?e \<le> ?T" using bound lk0 by simp
  have Req: "int R = ?T - (int j * w + w + int (length segs) * w)"
    using Cons.prems(5) by (simp add: algebra_simps)
  have an: "int a + int n = ?e - w - int j * w" using js se by (simp add: a_def n_def)
  have aR: "a + n \<le> R" using an Req bound by linarith
  obtain X1 where st:
      "tde_lag_loop data p lags (arange ?s ?e) ?ind2 [0..<length lags] X = Inr X1"
      "length X1 = R" "rect (p * length lags) X1"
      "\<forall>r. r < a \<or> a + n \<le> r \<longrightarrow> X1 ! r = X ! r"
      "\<forall>t<n. \<forall>i<length lags. \<forall>c<p.
            X1 ! (a + t) ! (c * length lags + i) = tde_src data lags ?s ?e i t ! c"
    using tde_segment_step [OF rd mn mx wdef js s0 se eT a_def n_def aR Cons.prems(3,4)] by blast
  define inew1 where "inew1 = inew[j := (?s - int j * w, ?e - w - int j * w)]"
  have unf: "tde_segment_loop data p lags j (se # segs) X inew
      = tde_segment_loop data p lags (Suc j) segs X1 inew1"
    using st(1) ind_2_ends [OF js se] by (simp add: inew1_def Let_def wdef [symmetric])
  have jk1: "int (Suc j) * w \<le> ?e" using js se by (simp add: algebra_simps)
  have R1: "int R = ?T - int (Suc j + length segs) * w"
    using Cons.prems(5) by simp
  have li1: "length inew1 = Suc j + length segs" using Cons.prems(6) by (simp add: inew1_def)
  obtain X' inew' where res:
      "tde_segment_loop data p lags (Suc j) segs X1 inew1 = Inr (X', inew')"
      "length X' = R" "rect (p * length lags) X'"
      "length inew' = length inew1"
      "\<forall>r < nat (?e - int (Suc j) * w). X' ! r = X1 ! r"
      "\<forall>q<Suc j. inew' ! q = inew1 ! q"
      "\<forall>m<length segs. tde_segment_post data p lags X' inew' (Suc j + m) (segs ! m)"
    using Cons.IH [OF vs jk1 st(2,3) R1 li1] by blast
  have ane: "a + n = nat (?e - int (Suc j) * w)" using an by (simp add: algebra_simps)
  have alo: "nat (lo - int j * w) \<le> a" using los by (simp add: a_def)
  have frame: "\<forall>r < nat (lo - int j * w). X' ! r = X ! r"
  proof (intro allI impI)
    fix r assume "r < nat (lo - int j * w)"
    then have ra: "r < a" using alo by simp
    then have "r < nat (?e - int (Suc j) * w)" using ane by linarith
    then have "X' ! r = X1 ! r" using res(5) by blast
    moreover have "X1 ! r = X ! r" using st(4) ra by blast
    ultimately show "X' ! r = X ! r" by simp
  qed
  have old: "\<forall>q<j. inew' ! q = inew ! q"
  proof (intro allI impI)
    fix q assume q: "q < j"
    then have "inew' ! q = inew1 ! q" using res(6) by simp
    then show "inew' ! q = inew ! q" using q by (simp add: inew1_def)
  qed
  have head: "tde_segment_post data p lags X' inew' j se"
  proof -
    have "inew' ! j = inew1 ! j" using res(6) by simp
    then have i: "inew' ! j = (?s - int j * w, ?e - w - int j * w)"
      using Cons.prems(6) by (simp add: inew1_def)
    have rows: "\<forall>t<n. \<forall>i<length lags. \<forall>c<p.
        X' ! (a + t) ! (c * length lags + i) = tde_src data lags ?s ?e i t ! c"
    proof (intro allI impI)
      fix t i c assume t: "t < n" and ic: "i < length lags" "c < p"
      have "a + t < nat (?e - int (Suc j) * w)" using t ane by linarith
      then have "X' ! (a + t) = X1 ! (a + t)" using res(5) by blast
      then show "X' ! (a + t) ! (c * length lags + i) = tde_src data lags ?s ?e i t ! c"
        using st(5) t ic by simp
    qed
    show ?thesis
      unfolding tde_segment_post_def Let_def wdef [symmetric] a_def [symmetric] n_def [symmetric]
      using i rows by blast
  qed
  have posts: "\<forall>m<length (se # segs). tde_segment_post data p lags X' inew' (j + m) ((se # segs) ! m)"
  proof (intro allI impI)
    fix m assume m: "m < length (se # segs)"
    show "tde_segment_post data p lags X' inew' (j + m) ((se # segs) ! m)"
    proof (cases m)
      case 0
      then show ?thesis using head by simp
    next
      case (Suc m')
      then have "m' < length segs" using m by simp
      then have "tde_segment_post data p lags X' inew' (Suc j + m') (segs ! m')" using res(7) by blast
      then show ?thesis using Suc by simp
    qed
  qed
  have li: "length inew' = length inew" using res(4) by (simp add: inew1_def)
  show ?case
    unfolding unf
    apply (rule exI [of _ X'], rule exI [of _ inew'])
    apply (intro conjI)
    apply (rule res(1))
    apply (rule res(2))
    apply (rule res(3))
    apply (rule li)
    apply (rule frame)
    apply (rule old)
    apply (rule posts)
    done
qed

lemma div_rowvec_length: "length (div_rowvec M v) = length M"
  by (simp add: div_rowvec_def)

lemma col_stds_length: "length (col_stds M) = ncols M"
  by (simp add: col_stds_def)

lemma standardise_cols_length: "length (standardise_cols M) = length M"
  by (simp add: standardise_cols_def Let_def div_rowvec_def center_cols_length)

lemma standardise_cols_rect: "rect q M \<Longrightarrow> rect q (standardise_cols M)"
proof (cases "M = []")
  case True
  then show ?thesis by (simp add: standardise_cols_def center_cols_def sub_rowvec_def div_rowvec_def rect_def Let_def)
next
  case False
  assume r: "rect q M"
  then have rc: "rect q (center_cols M)" by (rule center_cols_rect)
  have "center_cols M \<noteq> []" using False center_cols_length [of M] by auto
  then have "ncols (center_cols M) = q" using rc by (intro ncols_rect)
  then have "length (col_stds (center_cols M)) = q" by (simp add: col_stds_def)
  then show ?thesis using rc
    by (simp add: standardise_cols_def div_rowvec_def rect_def list_all_iff Let_def)
qed

lemma standardise_cols_entry:
  assumes "rect q M" "r < length M" "c < q"
  shows "standardise_cols M ! r ! c
       = fl_div (fl_sub (M ! r ! c) (fl_mean (column M c))) (fl_std (column (center_cols M) c))"
proof -
  have rc: "rect q (center_cols M)" using assms(1) by (rule center_cols_rect)
  have ne: "center_cols M \<noteq> []" using assms(2) center_cols_length [of M] by auto
  have nc: "ncols (center_cols M) = q" using rc ne by (intro ncols_rect)
  have lr: "length (center_cols M ! r) = q" using rc assms(2) by (intro rect_nth) (simp_all add: center_cols_length)
  have "standardise_cols M ! r ! c
      = fl_div (center_cols M ! r ! c) (fl_std (column (center_cols M) c))"
    using assms(2,3) nc lr by (simp add: standardise_cols_def Let_def div_rowvec_def col_stds_def center_cols_length)
  then show ?thesis using center_cols_entry [OF assms] by simp
qed

lemma tde_embed_ok:
  assumes rd: "rect p data" and nc: "ncols data = p" and ne: "lags \<noteq> []"
    and mn: "np_min lags \<le> 0" and mx: "0 < np_max_int lags"
    and wdef: "w = np_max_int lags - np_min lags"
    and vs: "valid_segments 0 (int (length data)) w indices"
  shows "\<exists>E. tde_embed data indices lags = Inr (E, trimmed_indices w indices)
      \<and> length E = length data - length indices * nat w \<and> rect (p * length lags) E
      \<and> (\<forall>m<length indices. \<forall>t<nat (snd (indices ! m) - fst (indices ! m) - w).
            \<forall>i<length lags. \<forall>c<p.
              E ! (nat (fst (indices ! m) - int m * w) + t) ! (c * length lags + i)
                = tde_src data lags (fst (indices ! m)) (snd (indices ! m)) i t ! c)"
proof -
  let ?T = "int (length data)" and ?N = "length indices" and ?L = "length lags"
  define R where "R = length data - ?N * nat w"
  have w1: "1 \<le> w" using mn mx wdef by simp
  have bound: "int ?N * w \<le> ?T" using valid_segments_bound [OF vs] w1 by simp
  have nk: "int (nat w) = w" using w1 by simp
  have "int (?N * nat w) \<le> int (length data)" using bound nk by simp
  then have le: "?N * nat w \<le> length data" by linarith
  have Rint: "int R = ?T - int (0 + ?N) * w" using le nk by (simp add: R_def of_nat_diff)
  have RR: "nat (?T - int ?N * w) = R" using Rint by simp
  let ?X0 = "replicate R (replicate (p * ?L) (Fin 0))"
  have c0: "\<not> int (p * ?L) < 0" by (simp only: of_nat_less_0_iff not_False_eq_True)
  have c1: "nat (int (p * ?L)) = p * ?L" by (rule nat_int)
  have r0: "\<not> ?T - int ?N * w < 0" using bound by simp
  have z1: "np_zeros (?T - int ?N * w) (int (p * ?L)) = Inr ?X0"
    unfolding np_zeros_def using c0 c1 r0 RR by (simp only: if_False)
  have unf: "tde_embed data indices lags = tde_segment_loop data p lags 0 indices ?X0 (replicate ?N (0, 0))"
    using z1 nc ne by (simp add: tde_embed_def Let_def wdef [symmetric])
  have rX: "rect (p * ?L) ?X0" by (simp add: rect_def list_all_iff)
  have j0: "int 0 * w \<le> 0" by simp
  have lX: "length ?X0 = R" by simp
  have li: "length (replicate ?N (0::int, 0::int)) = 0 + ?N" by simp
  obtain E inew where res:
      "tde_segment_loop data p lags 0 indices ?X0 (replicate ?N (0, 0)) = Inr (E, inew)"
      "length E = R" "rect (p * ?L) E"
      "length inew = length (replicate ?N (0::int, 0::int))"
      "\<forall>m<length indices. tde_segment_post data p lags E inew (0 + m) (indices ! m)"
    using tde_segment_loop_ok [OF rd mn mx wdef vs j0 lX rX Rint li] by blast
  have inew: "inew = trimmed_indices w indices"
  proof (rule nth_equalityI)
    show "length inew = length (trimmed_indices w indices)" using res(4) by (simp add: trimmed_indices_def)
    fix m assume "m < length inew"
    then have m: "m < length indices" using res(4) by simp
    then have "tde_segment_post data p lags E inew (0 + m) (indices ! m)" using res(5) by blast
    then show "inew ! m = trimmed_indices w indices ! m"
      using m by (simp add: tde_segment_post_def trimmed_indices_def Let_def wdef [symmetric])
  qed
  have rows: "\<forall>m<length indices. \<forall>t<nat (snd (indices ! m) - fst (indices ! m) - w).
            \<forall>i<length lags. \<forall>c<p.
              E ! (nat (fst (indices ! m) - int m * w) + t) ! (c * length lags + i)
                = tde_src data lags (fst (indices ! m)) (snd (indices ! m)) i t ! c"
  proof (intro allI impI)
    fix m t i c
    assume m: "m < length indices" and t: "t < nat (snd (indices ! m) - fst (indices ! m) - w)"
      and ic: "i < length lags" "c < p"
    have "tde_segment_post data p lags E inew (0 + m) (indices ! m)" using res(5) m by blast
    then show "E ! (nat (fst (indices ! m) - int m * w) + t) ! (c * length lags + i)
                = tde_src data lags (fst (indices ! m)) (snd (indices ! m)) i t ! c"
      using t ic by (simp add: tde_segment_post_def Let_def wdef [symmetric])
  qed
  show ?thesis
    unfolding unf R_def [symmetric]
    apply (rule exI [of _ E])
    apply (intro conjI)
    apply (simp add: res(1) inew)
    apply (rule res(2))
    apply (rule res(3))
    apply (rule rows)
    done
qed

text \<open>
  Claim C10. For a lag list with \<open>min(lags) \<le> 0 < max(lags)\<close>, data with \<open>p\<close> channels and
  a SegmentIndex whose segments are ordered, disjoint, inside the data and each longer
  than the window, the delay-embedding builder returns the standardised embedded matrix
  \<open>E\<close> with \<open>p * L\<close> columns, and column \<open>c * L + i\<close> of \<open>E\<close> holds channel \<open>c\<close> for
  the lag at position \<open>i\<close> of the list (the rotated and clipped segment): the lags are
  interleaved within each channel, where the autoregressive builder puts lag \<open>i\<close> of
  channel \<open>c\<close> in column \<open>i * p + c\<close>. Standardisation works column by column and keeps
  the layout.
\<close>

theorem delay_embedding_column_layout:
  assumes "rect p data" and "ncols data = p" and "lags \<noteq> []"
    and "np_min lags \<le> 0" and "0 < np_max_int lags"
    and "valid_segments 0 (int (length data)) (np_max_int lags - np_min lags) indices"
  shows "\<exists>E.
      build_data_tde lib data indices lags None standardise_pc
        = Inr \<lparr>tde_X = standardise_cols E,
               tde_indices = trimmed_indices (np_max_int lags - np_min lags) indices,
               tde_pcamodel = None\<rparr>
      \<and> length E = length data - length indices * nat (np_max_int lags - np_min lags)
      \<and> rect (p * length lags) E
      \<and> length (standardise_cols E) = length E
      \<and> rect (p * length lags) (standardise_cols E)
      \<and> (\<forall>r<length E. \<forall>x<p * length lags.
            standardise_cols E ! r ! x
              = fl_div (fl_sub (E ! r ! x) (fl_mean (column E x))) (fl_std (column (center_cols E) x)))
      \<and> (\<forall>m<length indices.
            \<forall>t<nat (snd (indices ! m) - fst (indices ! m) - (np_max_int lags - np_min lags)).
            \<forall>i<length lags. \<forall>c<p.
              E ! (nat (fst (trimmed_indices (np_max_int lags - np_min lags) indices ! m)) + t)
                ! (c * length lags + i)
              = data ! (nat (fst (indices ! m))
                        + nat ((int t - np_min lags - lags ! i)
                               mod (snd (indices ! m) - fst (indices ! m)))) ! c)"
proof -
  let ?w = "np_max_int lags - np_min lags"
  obtain E where e:
      "tde_embed data indices lags = Inr (E, trimmed_indices ?w indices)"
      "length E = length data - length indices * nat ?w" "rect (p * length lags) E"
      "\<forall>m<length indices. \<forall>t<nat (snd (indices ! m) - fst (indices ! m) - ?w).
            \<forall>i<length lags. \<forall>c<p.
              E ! (nat (fst (indices ! m) - int m * ?w) + t) ! (c * length lags + i)
                = tde_src data lags (fst (indices ! m)) (snd (indices ! m)) i t ! c"
    using tde_embed_ok [OF assms(1,2,3,4,5) refl assms(6)] by blast
  have run: "build_data_tde lib data indices lags None standardise_pc
        = Inr \<lparr>tde_X = standardise_cols E, tde_indices = trimmed_indices ?w indices,
               tde_pcamodel = None\<rparr>"
    using e(1) by (simp add: build_data_tde_def)
  have std: "\<forall>r<length E. \<forall>x<p * length lags.
            standardise_cols E ! r ! x
              = fl_div (fl_sub (E ! r ! x) (fl_mean (column E x))) (fl_std (column (center_cols E) x))"
    using standardise_cols_entry [OF e(3)] by blast
  have rows: "\<forall>m<length indices.
            \<forall>t<nat (snd (indices ! m) - fst (indices ! m) - ?w).
            \<forall>i<length lags. \<forall>c<p.
              E ! (nat (fst (trimmed_indices ?w indices ! m)) + t) ! (c * length lags + i)
              = data ! (nat (fst (indices ! m))
                        + nat ((int t - np_min lags - lags ! i)
                               mod (snd (indices ! m) - fst (indices ! m)))) ! c"
  proof (intro allI impI)
    fix m t i c
    assume m: "m < length indices"
      and t: "t < nat (snd (indices ! m) - fst (indices ! m) - ?w)"
      and ic: "i < length lags" "c < p"
    have "E ! (nat (fst (indices ! m) - int m * ?w) + t) ! (c * length lags + i)
                = tde_src data lags (fst (indices ! m)) (snd (indices ! m)) i t ! c"
      using e(4) m t ic by blast
    then show "E ! (nat (fst (trimmed_indices ?w indices ! m)) + t) ! (c * length lags + i)
              = data ! (nat (fst (indices ! m))
                        + nat ((int t - np_min lags - lags ! i)
                               mod (snd (indices ! m) - fst (indices ! m)))) ! c"
      using m by (simp add: trimmed_indices_nth tde_src_def)
  qed
  show ?thesis
    apply (rule exI [of _ E])
    apply (intro conjI)
    apply (rule run)
    apply (rule e(2))
    apply (rule e(3))
    apply (rule standardise_cols_length)
    apply (rule standardise_cols_rect [OF e(3)])
    apply (rule std)
    apply (rule rows)
    done
qed

lemma py_slice_zero: "py_slice xs 0 0 = []"
  by (simp add: py_slice_def Let_def)

lemma assign_block_empty_value:
  "assign_block X rows cols [] = (if rows = [] then Inr X else Inl ValueError)"
  by (simp add: assign_block_def bcast_def)

lemma tde_zero_lag_loop:
  assumes "ind_2 \<noteq> []"
  shows "\<exists>err. tde_lag_loop data p [0] ind_1 ind_2 (i # rest) X = Inl err"
proof (cases "take_rows data ind_1")
  case (Inl err)
  then show ?thesis by simp
next
  case (Inr seg)
  have "py_slice (np_roll ([0] ! i) seg) (- np_min [0]) (- np_max_int [0]) = []"
    by (simp add: np_min_def np_max_int_def py_slice_zero)
  then show ?thesis using Inr assms by (simp add: assign_block_empty_value Let_def)
qed

lemma tde_zero_lag_segment:
  "\<exists>err. tde_segment_loop data p [0] j (se # segs) X inew = Inl err"
proof -
  define ind_2 where "ind_2 = map (\<lambda>t. t - int j * (np_max_int [0] - np_min [0]))
                               (arange (fst se) (snd se - (np_max_int [0] - np_min [0])))"
  define ind_1 where "ind_1 = arange (fst se) (snd se)"
  have one: "[0..<length [0::int]] = [0]" by simp
  have unf: "tde_segment_loop data p [0] j (se # segs) X inew
      = (case tde_lag_loop data p [0] ind_1 ind_2 [0] X of
           Inl err \<Rightarrow> Inl err
         | Inr X1 \<Rightarrow>
             (if ind_2 = [] then Inl IndexError
              else tde_segment_loop data p [0] (Suc j) segs X1
                     (inew[j := (hd ind_2, last ind_2 + 1)])))"
    unfolding ind_2_def ind_1_def by (simp only: tde_segment_loop.simps Let_def one)
  show ?thesis
  proof (cases "ind_2 = []")
    case True
    then show ?thesis unfolding unf
      by (cases "tde_lag_loop data p [0] ind_1 ind_2 [0] X") simp_all
  next
    case False
    then obtain err where "tde_lag_loop data p [0] ind_1 ind_2 [0] X = Inl err"
      using tde_zero_lag_loop by blast
    then show ?thesis unfolding unf by simp
  qed
qed

text \<open>
  Claim C2. With \<^verbatim>\<open>lags=[0]\<close> the slice \<^verbatim>\<open>X_l[-minlag:-maxlag]\<close> is \<^verbatim>\<open>X_l[0:0]\<close>, which
  is empty, so the assignment into the rows of the first segment raises (or, for an empty
  segment, \<^verbatim>\<open>ind_2[0]\<close> does): whenever the SegmentIndex has a segment, the builder returns
  no matrix at all.
\<close>

theorem tde_zero_lag_raises:
  "indices \<noteq> [] \<Longrightarrow>
   \<exists>err. build_data_tde lib data indices [0] pca standardise_pc = Inl err"
proof -
  assume "indices \<noteq> []"
  then obtain se segs where i: "indices = se # segs" by (cases indices) auto
  show ?thesis
  proof (cases "np_zeros (int (length data) - int (length indices) * (np_max_int [0] - np_min [0]))
                  (int (ncols data * length [0::int]))")
    case (Inl err)
    then show ?thesis by (simp add: build_data_tde_def tde_embed_def Let_def)
  next
    case (Inr X0)
    obtain err where "tde_segment_loop data (ncols data) [0] 0 (se # segs) X0
        (replicate (length indices) (0, 0)) = Inl err"
      using tde_zero_lag_segment by blast
    then show ?thesis using Inr i by (simp add: build_data_tde_def tde_embed_def Let_def)
  qed
qed

text \<open>Three samples of one channel in one segment: ValueError.\<close>

theorem tde_zero_lag_raises_witness:
  "[(0::int, 3::int)] \<noteq> [] \<and>
   build_data_tde \<lparr>pca_fit = (\<lambda>ex n X. Inl ValueError), pca_transform = (\<lambda>(m::unit) X. X),
                    pca_evr = (\<lambda>m. [])\<rparr>
     [[Fin 1], [Fin 2], [Fin 3]] [(0, 3)] [0] None True = Inl ValueError"
proof -
  let ?lib = "\<lparr>pca_fit = (\<lambda>ex n X. Inl ValueError), pca_transform = (\<lambda>(m::unit) X. X),
                    pca_evr = (\<lambda>m. [])\<rparr>"
  have ne: "[(0::int, 3::int)] \<noteq> []" by simp
  obtain err where e: "build_data_tde ?lib [[Fin 1], [Fin 2], [Fin 3]] [(0, 3)] [0] None True = Inl err"
    using tde_zero_lag_raises [OF ne] by blast
  have "build_data_tde ?lib [[Fin 1], [Fin 2], [Fin 3]] [(0, 3)] [0] None True = Inl ValueError"
    by (simp add: build_data_tde_def tde_embed_def ncols_def np_zeros_def np_min_def np_max_int_def
      arange_def take_rows_def np_index_def np_roll_def py_slice_def assign_block_def bcast_def Let_def
      upto.simps)
  then show ?thesis using e ne by simp
qed

text \<open>Four samples of two channels, lags \<open>[-1, 0, 1]\<close>: columns 3, 4 and 5 of the first
  embedded row are channel 1 at the next, the same and the previous sample.\<close>

theorem delay_embedding_column_layout_witness:
  "\<exists>E. build_data_tde \<lparr>pca_fit = (\<lambda>ex n X. Inl ValueError), pca_transform = (\<lambda>(m::unit) X. X),
                         pca_evr = (\<lambda>m. [])\<rparr>
          [[Fin 1, Fin 10], [Fin 2, Fin 20], [Fin 3, Fin 30], [Fin 4, Fin 40]] [(0, 4)] [- 1, 0, 1] None True
        = Inr \<lparr>tde_X = standardise_cols E, tde_indices = [(0, 2)], tde_pcamodel = None\<rparr>
      \<and> length E = 2 \<and> rect 6 E
      \<and> E ! 0 ! (1 * 3 + 0) = Fin 30 \<and> E ! 0 ! (1 * 3 + 1) = Fin 20 \<and> E ! 0 ! (1 * 3 + 2) = Fin 10"
proof -
  let ?lib = "\<lparr>pca_fit = (\<lambda>ex n X. Inl ValueError), pca_transform = (\<lambda>(m::unit) X. X),
                    pca_evr = (\<lambda>m. [])\<rparr>"
  let ?data = "[[Fin 1, Fin 10], [Fin 2, Fin 20], [Fin 3, Fin 30], [Fin 4, Fin 40]]"
  let ?lags = "[- 1, 0, 1] :: int list"
  let ?idx = "[(0, 4)] :: segments"
  have mn: "np_min ?lags = - 1" by (simp add: np_min_def)
  have mx: "np_max_int ?lags = 1" by (simp add: np_max_int_def)
  have h1: "rect 2 ?data" by (simp add: rect_def)
  have h2: "ncols ?data = 2" by (simp add: ncols_def)
  have h3: "?lags \<noteq> []" by simp
  have h4: "np_min ?lags \<le> 0" by (simp add: mn)
  have h5: "0 < np_max_int ?lags" by (simp add: mx)
  have h6: "valid_segments 0 (int (length ?data)) (np_max_int ?lags - np_min ?lags) ?idx"
    by (simp add: mn mx)
  have ti: "trimmed_indices 2 ?idx = [(0, 2)]" by (simp add: trimmed_indices_def)
  from delay_embedding_column_layout [OF h1 h2 h3 h4 h5 h6, of ?lib True]
  obtain E where
    a: "build_data_tde ?lib ?data ?idx ?lags None True
        = Inr \<lparr>tde_X = standardise_cols E, tde_indices = trimmed_indices 2 ?idx, tde_pcamodel = None\<rparr>"
    and b: "length E = length ?data - length ?idx * nat 2" "rect (2 * length ?lags) E"
    and c: "\<forall>m<length ?idx. \<forall>t<nat (snd (?idx ! m) - fst (?idx ! m) - 2).
            \<forall>i<length ?lags. \<forall>c<2.
              E ! (nat (fst (trimmed_indices 2 ?idx ! m)) + t) ! (c * length ?lags + i)
              = ?data ! (nat (fst (?idx ! m))
                        + nat ((int t - (- 1) - ?lags ! i) mod (snd (?idx ! m) - fst (?idx ! m)))) ! c"
    unfolding mn mx by (auto simp: mn mx)
  have e0: "E ! 0 ! (1 * 3 + 0) = Fin 30" using c [rule_format, of 0 0 0 1] by (simp add: ti eval_nat_numeral)
  have e1: "E ! 0 ! (1 * 3 + 1) = Fin 20" using c [rule_format, of 0 0 1 1] by (simp add: ti eval_nat_numeral)
  have e2: "E ! 0 ! (1 * 3 + 2) = Fin 10" using c [rule_format, of 0 0 2 1] by (simp add: ti eval_nat_numeral)
  show ?thesis
    apply (rule exI [of _ E])
    using a b e0 e1 e2 by (simp add: ti)
qed

section \<open>The partial-connectivity builder returns unpruned data\<close>

lemma set_col_rect: "rect q M \<Longrightarrow> rect q (set_col M j v)"
  by (auto simp: rect_def list_all_iff set_col_def dest: set_zip_leftD)

lemma regress_column_rect:
  "regress_column linv conn X Ysrc Ydst j = Inr Y1 \<Longrightarrow> rect q Ydst \<Longrightarrow> rect q Y1"
  by (auto simp: regress_column_def Let_def set_col_rect split: if_splits sum.splits)

lemma regress_out_rect:
  "regress_out linv conn X Ysrc Ydst js = Inr Y1 \<Longrightarrow> rect q Ydst \<Longrightarrow> rect q Y1"
proof (induction js arbitrary: Ydst)
  case Nil
  then show ?case by simp
next
  case (Cons j js)
  then show ?case by (auto split: sum.splits dest: regress_column_rect)
qed

text \<open>
  Claim C1. Whenever the partial-connectivity builder returns with a connectivity given,
  the \<open>X\<close> it returns is the input \<open>X\<close> (centered when asked) with all its columns, and
  the \<open>Y\<close> it returns has all the columns of the input \<open>Y\<close>; only the connectivity is
  restricted to the active predictors and targets. The pruned arrays of lines 463--464
  are never returned.
\<close>

theorem partial_connectivity_keeps_all_columns:
  assumes "build_data_partial_connectivity linv X Y (Some conn) center_data = Inr (Xn, Yn, Cn)"
  shows "Xn = (if center_data then center_cols X else X)
       \<and> length Xn = length X
       \<and> (rect p X \<longrightarrow> rect p Xn)
       \<and> (rect q Y \<longrightarrow> rect q Yn)
       \<and> Cn = Some (map (\<lambda>r. map (\<lambda>c. conn ! r ! c)
                              (where_true (map (\<lambda>j. any_one (column conn j)) [0..<ncols Y])))
                      (where_true (map (\<lambda>j. any_one (conn ! j)) [0..<ncols X])))"
proof -
  from assms obtain Y1 where
    ro: "regress_out linv conn X (Some Y) Y [0..<ncols Y] = Inr Y1"
    and xn: "Xn = (if center_data then center_cols X else X)"
    and yn: "Yn = (if center_data then center_cols Y1 else Y1)"
    and cn: "Cn = Some (map (\<lambda>r. map (\<lambda>c. conn ! r ! c)
                              (where_true (map (\<lambda>j. any_one (column conn j)) [0..<ncols Y])))
                      (where_true (map (\<lambda>j. any_one (conn ! j)) [0..<ncols X])))"
    by (auto simp: build_data_partial_connectivity_def Let_def split: if_splits sum.splits)
  have len: "length Xn = length X" using xn by (simp add: center_cols_length)
  have rx: "rect p X \<longrightarrow> rect p Xn" using xn by (simp add: center_cols_rect)
  have ry: "rect q Y \<longrightarrow> rect q Yn"
    using yn regress_out_rect [OF ro] by (simp add: center_cols_rect)
  show ?thesis using xn len rx ry cn by blast
qed

text \<open>One sample, two predictors and two targets; predictor 1 has no permitted edge, so
  only predictor 0 is active, yet both columns of \<open>X\<close> come back.\<close>

theorem partial_connectivity_keeps_all_columns_witness:
  "\<exists>Yn. build_data_partial_connectivity inv_1x1 [[Fin 1, Fin 2]] [[Fin 3, Fin 4]]
          (Some [[Fin 1, Fin 1], [Fin 0, Fin 0]]) False
        = Inr ([[Fin 1, Fin 2]], Yn, Some [[Fin 1, Fin 1]])
      \<and> rect 2 Yn
      \<and> where_true (map (\<lambda>j. any_one ([[Fin 1, Fin 1], [Fin 0, Fin 0]] ! j)) [0..<2]) = [0]"
proof -
  let ?X = "[[Fin 1, Fin 2]]" and ?Y = "[[Fin 3, Fin 4]]" and ?C = "[[Fin 1, Fin 1], [Fin 0, Fin 0]]"
  let ?Yn = "[[Fin (3 - 12000 / 4001), Fin (4 - 16000 / 4001)]]"
  have run: "build_data_partial_connectivity inv_1x1 ?X ?Y (Some ?C) False
     = Inr (?X, ?Yn, Some [[Fin 1, Fin 1]])"
    by code_simp
  have act: "where_true (map (\<lambda>j. any_one (?C ! j)) [0..<2]) = [0]"
    by code_simp
  have ry: "rect 2 ?Y" by (simp add: rect_def)
  from partial_connectivity_keeps_all_columns [OF run, of 2 2] ry
  have "rect 2 ?Yn" by blast
  then show ?thesis using run act by blast
qed

section \<open>Phase unwrapping\<close>

lemma unwrap_q1: "(pi / 2 + pi) / (2 * pi) = 3 / 4"
  by (simp add: field_simps)

lemma unwrap_q2: "(- (pi / 2)) / (2 * pi) = - (1 / 4)"
  by (simp add: field_simps)

lemma unwrap_f1: "\<lfloor>3 / 4 :: real\<rfloor> = 0" by simp

lemma unwrap_f2: "\<lfloor>- (1 / 4) :: real\<rfloor> = - 1" by (simp add: floor_eq_iff)

lemma unwrap_m1: "fl_mod (Fin (pi / 2 + pi)) (2 * pi) = Fin (3 * pi / 2)"
  by (simp add: unwrap_q1 unwrap_f1)

lemma unwrap_m2: "fl_mod (Fin (- (pi / 2))) (2 * pi) = Fin (3 * pi / 2)"
  by (simp only: fl_mod.simps unwrap_q2 unwrap_f2) simp

text \<open>Unwrapping the angles \<open>0, \<pi>/2, \<pi>, -\<pi>/2\<close> of one channel along time lifts the last
  one to \<open>3\<pi>/2\<close>.\<close>

lemma unwrap_along_time:
  "unwrap_row [Fin 0, Fin (pi / 2), Fin pi, Fin (- (pi / 2))] = [Fin 0, Fin (pi / 2), Fin pi, Fin (3 * pi / 2)]"
proof -
  have s1: "unwrap_from (Fin pi) (Fin 0) [Fin (- (pi / 2))] = [Fin (3 * pi / 2)]"
    by (simp add: fl_sub_def fl_eq_def unwrap_m2 Let_def del: fl_mod.simps)
  have s2: "unwrap_from (Fin (pi / 2)) (Fin 0) [Fin pi, Fin (- (pi / 2))] = [Fin pi, Fin (3 * pi / 2)]"
    using s1 unwrap_m1 by (simp add: fl_sub_def fl_eq_def Let_def del: fl_mod.simps)
  have s3: "unwrap_from (Fin 0) (Fin 0) [Fin (pi / 2), Fin pi, Fin (- (pi / 2))] = [Fin (pi / 2), Fin pi, Fin (3 * pi / 2)]"
    using s2 unwrap_m1 by (simp add: fl_sub_def fl_eq_def Let_def del: fl_mod.simps)
  show ?thesis using s3 by (simp add: unwrap_row_def)
qed

section \<open>Peak dampening\<close>

lemma sqrt_nine: "sqrt 9 = 3"
  using real_sqrt_abs [of 3] by simp

lemma peak_example_centered: "per_segment center_cols (Suc 0) [(0, 10)] peak_example = Inr peak_example"
  by code_simp

lemma peak_example_std: "fl_std (concat peak_example) = Fin 3"
  by (simp add: peak_example_def fl_std_def fl_mean_def fl_sum_def fl_sub_def sqrt_nine)

lemma ln_six_pos: "0 < ln (6::real)" by simp

lemma ln_nine_pos: "0 < ln (9::real)" by simp

lemma peak_example_dampened: "dampen_peaks peak_example (Fin 1)
   = [[Fin (- 1)], [Fin (- 1)], [Fin (- 1)], [Fin (- 1)], [Fin (- 1)], [Fin (- 1)], [Fin (- 1)], [Fin (- 1)], [Fin (- 1)], [NaN]]"
  unfolding dampen_peaks_def peak_example_std
  by (simp add: peak_example_def fl_sub_def fl_of_sign_def ln_six_pos ln_nine_pos Let_def)

text \<open>With the strength 5 the peak is compressed to the value the documentation gives.\<close>

lemma ln_five_pos: "0 < ln (5::real)" by simp

lemma peak_example_dampened_base_five:
  "dampen_peaks peak_example (Fin 5)
   = [[Fin (- 1)], [Fin (- 1)], [Fin (- 1)], [Fin (- 1)], [Fin (- 1)], [Fin (- 1)], [Fin (- 1)],
      [Fin (- 1)], [Fin (- 1)], [Fin (6 - ln 6 / ln 5 + ln 9 / ln 5)]]"
  unfolding dampen_peaks_def peak_example_std
  using ln_five_pos by (simp add: peak_example_def fl_sub_def Let_def)

lemma stage_dampen_True:
  "stage_dampen (ArgBool True) indices data
     = (case per_segment center_cols (ncols data) indices data of
          Inl e \<Rightarrow> Inl e
        | Inr data1 \<Rightarrow> Inr (dampen_peaks data1 (Fin 1)))"
  by (simp add: stage_dampen_def split: sum.splits)

lemma peak_example_ncols: "ncols peak_example = 1" by (simp add: peak_example_def ncols_def)

text \<open>
  Claim C3. \<^verbatim>\<open>isinstance(True, int)\<close> holds in Python, so \<^verbatim>\<open>dampen_extreme_peaks=True\<close> takes
  the branch of line 238 and the strength is \<^verbatim>\<open>True\<close>, the number 1, not the default 5 of
  line 240: the dampening divides by \<open>log 1 = 0\<close>. On the example (standardisation off,
  everything else at its default) the peak \<open>9 > 2 * 3\<close> is replaced by
  \<open>6 - inf + inf\<close>, which is \<open>NaN\<close>, where base 5 gives a finite value; the nine samples
  in range are left as they are.
\<close>

theorem dampening_with_True_has_base_one:
  "stage_dampen (ArgBool True) indices data
     = (case per_segment center_cols (ncols data) indices data of
          Inl e \<Rightarrow> Inl e
        | Inr data1 \<Rightarrow> Inr (dampen_peaks data1 (Fin 1)))
   \<and> preprocess_data lib plib ilib peak_example [(0, 10)]
       (default_opts\<lparr>opt_dampen_extreme_peaks := ArgBool True, opt_standardise := False\<rparr>)
     = Inr \<lparr>prep_data = [[Fin (- 1)], [Fin (- 1)], [Fin (- 1)], [Fin (- 1)], [Fin (- 1)],
                          [Fin (- 1)], [Fin (- 1)], [Fin (- 1)], [Fin (- 1)], [NaN]],
            prep_indices = [(0, 10)],
            prep_log_opts = default_opts\<lparr>opt_dampen_extreme_peaks := ArgBool True, opt_standardise := False\<rparr>,
            prep_pcamodel = None, prep_icamodel = None\<rparr>"
proof
  show "stage_dampen (ArgBool True) indices data
     = (case per_segment center_cols (ncols data) indices data of
          Inl e \<Rightarrow> Inl e
        | Inr data1 \<Rightarrow> Inr (dampen_peaks data1 (Fin 1)))"
    by (rule stage_dampen_True)
  have d: "stage_dampen (ArgBool True) [(0, 10)] peak_example
      = Inr [[Fin (- 1)], [Fin (- 1)], [Fin (- 1)], [Fin (- 1)], [Fin (- 1)],
             [Fin (- 1)], [Fin (- 1)], [Fin (- 1)], [Fin (- 1)], [NaN]]"
    by (simp add: stage_dampen_True peak_example_ncols peak_example_centered peak_example_dampened del: per_segment.simps)
  show "preprocess_data lib plib ilib peak_example [(0, 10)]
       (default_opts\<lparr>opt_dampen_extreme_peaks := ArgBool True, opt_standardise := False\<rparr>)
     = Inr \<lparr>prep_data = [[Fin (- 1)], [Fin (- 1)], [Fin (- 1)], [Fin (- 1)], [Fin (- 1)],
                          [Fin (- 1)], [Fin (- 1)], [Fin (- 1)], [Fin (- 1)], [NaN]],
            prep_indices = [(0, 10)],
            prep_log_opts = default_opts\<lparr>opt_dampen_extreme_peaks := ArgBool True, opt_standardise := False\<rparr>,
            prep_pcamodel = None, prep_icamodel = None\<rparr>"
    by (simp add: preprocess_data_def d default_opts_def stage_standardise_def stage_filter_def
        stage_detrend_def stage_power_phase_def stage_reduce_def stage_post_standardise_def
        stage_downsample_def num_truthy_def)
qed

section \<open>The sign convention\<close>

lemma one_upt: "[0..<nat 1] = [0]" by simp

text \<open>
  Claim C4. With one component, \<^verbatim>\<open>apply_pca\<close> and \<^verbatim>\<open>apply_ica\<close> return what the loop of the
  sign convention makes of the fitted transform of the data. The loop looks for the
  sample whose absolute value equals the absolute value of the \<^emph>\<open>maximum\<close> of the column
  (\<^verbatim>\<open>np.abs(np.max(X[:,j]))\<close>), not the maximum of the absolute values. In the component
  \<open>-5, 2, 3\<close> the maximum is 3, the sample found is the third one, which is positive, and
  the column is returned as it is: its sample of largest absolute value, \<open>-5\<close>, stays
  negative.
\<close>

theorem sign_convention_misses_negative_peak:
  "apply_pca lib heap x (DNum (PyInt 1)) whitening exact
     = (case pca_fit lib exact (Some (PyInt 1)) (heap ! x) of
          Inl e \<Rightarrow> Inl e
        | Inr model \<Rightarrow>
            (case sign_convention [0] (pca_transform lib model (heap ! x)) of
               Inl e \<Rightarrow> Inl e
             | Inr Z \<Rightarrow> Inr (heap, Z, Some model)))
   \<and> apply_ica plib ilib X (DNum (PyInt 1)) algorithm
     = (case ica_fit ilib (PyInt 1) algorithm X of
          Inl e \<Rightarrow> Inl e
        | Inr model \<Rightarrow>
            (case sign_convention [0] (ica_transform ilib model X) of
               Inl e \<Rightarrow> Inl e
             | Inr Z \<Rightarrow> Inr (Z, model)))
   \<and> sign_convention [0] [[Fin (- 5)], [Fin 2], [Fin 3]] = Inr [[Fin (- 5)], [Fin 2], [Fin 3]]"
proof (intro conjI)
  show "apply_pca lib heap x (DNum (PyInt 1)) whitening exact
     = (case pca_fit lib exact (Some (PyInt 1)) (heap ! x) of
          Inl e \<Rightarrow> Inl e
        | Inr model \<Rightarrow>
            (case sign_convention [0] (pca_transform lib model (heap ! x)) of
               Inl e \<Rightarrow> Inl e
             | Inr Z \<Rightarrow> Inr (heap, Z, Some model)))"
    by (simp add: apply_pca_def one_upt split: sum.splits)
  show "apply_ica plib ilib X (DNum (PyInt 1)) algorithm
     = (case ica_fit ilib (PyInt 1) algorithm X of
          Inl e \<Rightarrow> Inl e
        | Inr model \<Rightarrow>
            (case sign_convention [0] (ica_transform ilib model X) of
               Inl e \<Rightarrow> Inl e
             | Inr Z \<Rightarrow> Inr (Z, model)))"
    by (simp add: apply_ica_def one_upt split: sum.splits)
  show "sign_convention [0] [[Fin (- 5)], [Fin 2], [Fin 3]] = Inr [[Fin (- 5)], [Fin 2], [Fin 3]]"
    by code_simp
qed

section \<open>The frame of \<^verbatim>\<open>apply_pca\<close>\<close>

text \<open>
  Claim C9. With a precomputed projection matrix, \<^verbatim>\<open>apply_pca\<close> leaves the caller's
  array centered: whenever it returns, the heap cell of \<open>X\<close> holds \<open>X\<close> minus its column
  means. On the array \<open>[[1], [3]]\<close> with the projection \<open>[[1]]\<close> the caller's array is
  \<open>[[-1], [1]]\<close> afterwards.
\<close>

theorem apply_pca_writes_into_its_argument:
  "apply_pca lib heap x (DArr W) whitening exact
     = (case np_matmul (center_cols (heap ! x)) W of
          Inl e \<Rightarrow> Inl e
        | Inr Z \<Rightarrow> Inr (heap[x := center_cols (heap ! x)], div_rowvec Z (col_stds Z), None))
   \<and> apply_pca lib [[[Fin 1], [Fin 3]]] 0 (DArr [[Fin 1]]) whitening exact
     = Inr ([[[Fin (- 1)], [Fin 1]]], [[Fin (- 1)], [Fin 1]], None)"
proof
  show "apply_pca lib heap x (DArr W) whitening exact
     = (case np_matmul (center_cols (heap ! x)) W of
          Inl e \<Rightarrow> Inl e
        | Inr Z \<Rightarrow> Inr (heap[x := center_cols (heap ! x)], div_rowvec Z (col_stds Z), None))"
    by (simp add: apply_pca_def Let_def)
  show "apply_pca lib [[[Fin 1], [Fin 3]]] 0 (DArr [[Fin 1]]) whitening exact
     = Inr ([[[Fin (- 1)], [Fin 1]]], [[Fin (- 1)], [Fin 1]], None)"
    by (simp add: apply_pca_def center_cols_def sub_rowvec_def col_means_def col_stds_def ncols_def
      column_def fl_mean_def fl_std_def fl_sum_def fl_sub_def np_matmul_def matmul_def dot_def
      div_rowvec_def Let_def)
qed

section \<open>Amplitude and phase\<close>

lemma take_rows_all: "take_rows M (arange 0 (int (length M))) = Inr M"
proof -
  have "take_rows M (arange 0 (int (length M))) = Inr (map (\<lambda>t. M ! (nat 0 + t)) [0..<nat (int (length M) - 0)])"
    by (rule take_rows_range) simp_all
  then show ?thesis by (simp add: map_nth)
qed

lemma assign_block_full:
  assumes "length V = length M" "rect (length cols) V"
  shows "assign_block M (arange 0 (int (length M))) cols V = Inr (map2 (put_row cols) V M)"
proof -
  have ar: "arange 0 (int (length M)) = map (\<lambda>t. int (0 + t)) [0..<length M]"
    by (simp add: arange_map)
  have le: "0 + length M \<le> length M" by simp
  obtain A where A: "assign_block M (map (\<lambda>t. int (0 + t)) [0..<length M]) cols V = Inr A"
      "length A = length M"
      "\<forall>t<length M. A ! (0 + t) = put_row cols (V ! t) (M ! (0 + t))"
    using assign_block_range [OF assms le] by blast
  have "A = map2 (put_row cols) V M"
  proof (rule nth_equalityI)
    show "length A = length (map2 (put_row cols) V M)" using A(2) assms(1) by simp
    fix i assume "i < length A"
    then have i: "i < length M" using A(2) by simp
    then have "A ! i = put_row cols (V ! i) (M ! i)" using A(3) by simp
    then show "A ! i = map2 (put_row cols) V M ! i" using i assms(1) by simp
  qed
  then show ?thesis using A(1) ar by simp
qed

text \<open>
  Claim C7. Four samples of one channel in one segment, amplitude and phase both asked
  for, standardisation off. Whatever analytic signal \<open>z0, z1, z2, z3\<close> the Hilbert
  transform returns for the segment, the pipeline returns the amplitudes in column 0 and
  the \<^emph>\<open>plain\<close> angles in column 1: \<^verbatim>\<open>np.unwrap\<close> is called without an axis, so it works
  across the channels of each sample, and with one channel it changes nothing. For the
  analytic signal \<open>1, i, -1, -i\<close> of the samples \<open>1, 0, -1, 0\<close> the angles are
  \<open>0, \<pi>/2, \<pi>, -\<pi>/2\<close>, whose unwrapping along time ends in \<open>3\<pi>/2\<close>.
\<close>

theorem phase_is_not_unwrapped_along_time:
  "preprocess_data (lib\<lparr>lib_hilbert := (\<lambda>M. [[z0], [z1], [z2], [z3]])\<rparr>) plib ilib
       [[Fin 1], [Fin 0], [Fin (- 1)], [Fin 0]] [(0, 4)]
       (default_opts\<lparr>opt_standardise := False, opt_onpower := True, opt_onphase := True\<rparr>)
     = Inr \<lparr>prep_data = [[lib_abs lib z0, lib_angle lib z0], [lib_abs lib z1, lib_angle lib z1],
                          [lib_abs lib z2, lib_angle lib z2], [lib_abs lib z3, lib_angle lib z3]],
            prep_indices = [(0, 4)],
            prep_log_opts = default_opts\<lparr>opt_standardise := False, opt_onpower := True, opt_onphase := True\<rparr>,
            prep_pcamodel = None, prep_icamodel = None\<rparr>
   \<and> unwrap_row [Fin 0, Fin (pi / 2), Fin pi, Fin (- (pi / 2))]
     = [Fin 0, Fin (pi / 2), Fin pi, Fin (3 * pi / 2)]"
proof -
  have pp: "stage_power_phase (lib\<lparr>lib_hilbert := (\<lambda>M. [[z0], [z1], [z2], [z3]])\<rparr>) True True [(0, 4)]
       [[Fin 1], [Fin 0], [Fin (- 1)], [Fin 0]]
     = Inr [[lib_abs lib z0, lib_angle lib z0], [lib_abs lib z1, lib_angle lib z1],
            [lib_abs lib z2, lib_angle lib z2], [lib_abs lib z3, lib_angle lib z3]]"
  proof -
    let ?lib = "lib\<lparr>lib_hilbert := (\<lambda>M. [[z0], [z1], [z2], [z3]])\<rparr>"
    let ?D = "[[Fin 1, Fin 1], [Fin 0, Fin 0], [Fin (- 1), Fin (- 1)], [Fin 0, Fin 0]]"
    let ?D1 = "[[lib_abs lib z0, Fin 1], [lib_abs lib z1, Fin 0], [lib_abs lib z2, Fin (- 1)],
                [lib_abs lib z3, Fin 0]]"
    let ?D2 = "[[lib_abs lib z0, lib_angle lib z0], [lib_abs lib z1, lib_angle lib z1],
            [lib_abs lib z2, lib_angle lib z2], [lib_abs lib z3, lib_angle lib z3]]"
    have tr: "take_rows ?D (arange 0 4) = Inr ?D"
      using take_rows_all [of ?D] by simp
    have a1: "assign_block ?D (arange 0 4) [0] [[lib_abs lib z0], [lib_abs lib z1], [lib_abs lib z2], [lib_abs lib z3]]
        = Inr ?D1"
      using assign_block_full [of "[[lib_abs lib z0], [lib_abs lib z1], [lib_abs lib z2], [lib_abs lib z3]]" ?D "[0]"]
      by (simp add: rect_def put_row_def)
    have u12: "[Suc 0..<2] = [Suc 0]" by (simp add: upt_rec)
    have a2: "assign_block ?D1 (arange 0 4) [Suc 0]
          [[lib_angle lib z0], [lib_angle lib z1], [lib_angle lib z2], [lib_angle lib z3]]
        = Inr ?D2"
      using assign_block_full [of "[[lib_angle lib z0], [lib_angle lib z1], [lib_angle lib z2], [lib_angle lib z3]]" ?D1 "[Suc 0]"]
      by (simp add: rect_def put_row_def)
    show ?thesis
      by (simp add: stage_power_phase_def ncols_def tr a1 a2 u12 np_unwrap_def unwrap_row_def Let_def)
  qed
  have run: "preprocess_data (lib\<lparr>lib_hilbert := (\<lambda>M. [[z0], [z1], [z2], [z3]])\<rparr>) plib ilib
       [[Fin 1], [Fin 0], [Fin (- 1)], [Fin 0]] [(0, 4)]
       (default_opts\<lparr>opt_standardise := False, opt_onpower := True, opt_onphase := True\<rparr>)
     = Inr \<lparr>prep_data = [[lib_abs lib z0, lib_angle lib z0], [lib_abs lib z1, lib_angle lib z1],
                          [lib_abs lib z2, lib_angle lib z2], [lib_abs lib z3, lib_angle lib z3]],
            prep_indices = [(0, 4)],
            prep_log_opts = default_opts\<lparr>opt_standardise := False, opt_onpower := True, opt_onphase := True\<rparr>,
            prep_pcamodel = None, prep_icamodel = None\<rparr>"
    by (simp add: preprocess_data_def pp default_opts_def stage_dampen_def stage_standardise_def
        stage_filter_def stage_detrend_def stage_reduce_def stage_post_standardise_def
        stage_downsample_def num_truthy_def)
  show ?thesis using run unwrap_along_time by (rule conjI)
qed

section \<open>Two runs of the independent-component reducer\<close>

lemma sqrt_four: "sqrt 4 = 2"
  using real_sqrt_abs [of 2] by simp

lemma ica_example_standardised:
  "standardise_cols ica_example = [[Fin (- 2)], [Fin (1 / 2)], [Fin (1 / 2)], [Fin (1 / 2)], [Fin (1 / 2)]]"
  by (simp add: ica_example_def standardise_cols_def center_cols_def col_means_def col_stds_def
      sub_rowvec_def div_rowvec_def column_def ncols_def fl_std_def fl_mean_def fl_sum_def
      fl_sub_def Let_def sqrt_four)

lemma sign_kept_first_run:
  "sign_convention [0] [[Fin (- 2)], [Fin (1 / 2)], [Fin (1 / 2)], [Fin (1 / 2)], [Fin (1 / 2)]]
     = Inr [[Fin (- 2)], [Fin (1 / 2)], [Fin (1 / 2)], [Fin (1 / 2)], [Fin (1 / 2)]]"
  by code_simp

lemma sign_kept_second_run:
  "sign_convention [0] [[Fin 2], [Fin (- (1 / 2))], [Fin (- (1 / 2))], [Fin (- (1 / 2))], [Fin (- (1 / 2))]]
     = Inr [[Fin 2], [Fin (- (1 / 2))], [Fin (- (1 / 2))], [Fin (- (1 / 2))], [Fin (- (1 / 2))]]"
  by code_simp

text \<open>
  Claim C8. Two calls of \<^verbatim>\<open>apply_ica\<close> on the same one-channel recording, with the same
  number of components and the same algorithm, that differ only in the starting weight
  FastICA draws from the global random generator, return different data: the second
  result is the first with every sign reversed. The loop of the sign convention does
  not undo the difference. In the first run the maximum of the component is \<open>1/2\<close>,
  found at the second sample, which is positive; in the second run the maximum is \<open>2\<close>,
  found at the first sample, which is positive; neither column is flipped. So the
  output of the reducer is not a function of its input, and its signs are not fixed.
\<close>

theorem ica_output_depends_on_the_run:
  "apply_ica plib (fastica_one_channel False) ica_example (DNum (PyInt 1)) algorithm
     = Inr ([[Fin (- 2)], [Fin (1 / 2)], [Fin (1 / 2)], [Fin (1 / 2)], [Fin (1 / 2)]], False)
   \<and> apply_ica plib (fastica_one_channel True) ica_example (DNum (PyInt 1)) algorithm
     = Inr ([[Fin 2], [Fin (- (1 / 2))], [Fin (- (1 / 2))], [Fin (- (1 / 2))], [Fin (- (1 / 2))]], True)"
proof (intro conjI)
  show "apply_ica plib (fastica_one_channel False) ica_example (DNum (PyInt 1)) algorithm
     = Inr ([[Fin (- 2)], [Fin (1 / 2)], [Fin (1 / 2)], [Fin (1 / 2)], [Fin (1 / 2)]], False)"
    by (simp add: apply_ica_def fastica_one_channel_def one_upt ica_example_standardised
        sign_kept_first_run del: sign_convention.simps)
  have neg: "map (map (\<lambda>x. fl_mul x (Fin (- 1)))) (standardise_cols ica_example)
     = [[Fin 2], [Fin (- (1 / 2))], [Fin (- (1 / 2))], [Fin (- (1 / 2))], [Fin (- (1 / 2))]]"
    by (simp add: ica_example_standardised)
  show "apply_ica plib (fastica_one_channel True) ica_example (DNum (PyInt 1)) algorithm
     = Inr ([[Fin 2], [Fin (- (1 / 2))], [Fin (- (1 / 2))], [Fin (- (1 / 2))], [Fin (- (1 / 2))]], True)"
    by (simp add: apply_ica_def fastica_one_channel_def one_upt neg sign_kept_second_run
        del: list.map sign_convention.simps)
qed

end
